theory Spec2Isabelle
  imports Main "HOL-Library.Word"
begin

unbundle bit_operations_syntax

section \<open>Common types\<close>

type_synonym byte = "8 word"
type_synonym ushort = "16 word"

text \<open>The audio formats of \<open>PianoAudioFormat_t\<close> that \<open>fly.c\<close> switches on; every other
  value of the enumeration takes the \<open>default\<close> branch.\<close>

datatype PianoAudioFormat = PIANO_AF_UNKNOWN | PIANO_AF_AACPLUS | PIANO_AF_MP3 | PIANO_AF_MP3_HI

text \<open>The fields of \<open>BarSettings_t\<close> that the recorder reads.\<close>

record BarSettings =
  audioFileName :: string
  useSpaces :: bool
  embedCover :: bool

section \<open>fly.c: building the path of the audio file\<close>

text \<open>\<open>_BarFlyNameTranslate(dest, src, n, settings)\<close>. The result is the string left in
  \<open>dest\<close> (its length is the C return value). The loop runs until the terminating NUL of
  \<open>src\<close>; the parameter \<open>n\<close> is not read anywhere in the body.\<close>

definition is_dash_char :: "char \<Rightarrow> bool" where
  "is_dash_char c = (c = CHR ''/'' \<or> c = CHR 0x5C \<or> c = CHR ''|'' \<or> c = CHR '':'' \<or>
     c = CHR '';'' \<or> c = CHR ''*'' \<or> c = CHR 0x60)"

definition is_skip_char :: "char \<Rightarrow> bool" where
  "is_skip_char c = (c = CHR 0x22 \<or> c = CHR ''?'')"

primrec BarFlyNameTranslate :: "string \<Rightarrow> nat \<Rightarrow> BarSettings \<Rightarrow> string" where
  "BarFlyNameTranslate [] n settings = []"
| "BarFlyNameTranslate (c # src) n settings =
     (if is_dash_char c then [CHR ''-'']
      else if c = CHR ''<'' then [CHR ''('']
      else if c = CHR ''>'' then [CHR '')'']
      else if c = CHR '' '' \<and> \<not> useSpaces settings then [CHR ''_'']
      else if is_skip_char c then []
      else [c]) @ BarFlyNameTranslate src n settings"

definition BAR_FLY_NAME_LENGTH :: nat where
  "BAR_FLY_NAME_LENGTH = 256"

text \<open>\<open>printf\<close> conversions \<open>%hu\<close> and \<open>%02hu\<close> of an unsigned short.\<close>

definition digit_char :: "nat \<Rightarrow> char" where
  "digit_char d = char_of (48 + d)"

function show_dec :: "nat \<Rightarrow> string" where
  "show_dec n = (if n < 10 then [digit_char n] else show_dec (n div 10) @ [digit_char (n mod 10)])"
  by pat_completeness auto
termination
  by (relation "measure id") auto

declare show_dec.simps [simp del]

definition fmt_hu :: "ushort \<Rightarrow> string" where
  "fmt_hu v = show_dec (unat v)"

definition fmt_02hu :: "ushort \<Rightarrow> string" where
  "fmt_02hu v = (if unat v < 10 then CHR ''0'' # show_dec (unat v) else show_dec (unat v))"

text \<open>The second loop of \<open>_BarFlyFileGetPath\<close>, which fills the buffer. One round copies the
  characters before the next \<open>%\<close> (\<open>strcspn\<close>, \<open>strncpy\<close>) and then, unless the pattern has
  ended, compares the pattern at the \<open>%\<close> with the six tokens in the order of the source.
  \<open>substitute\<close> is that chain of \<open>strncmp\<close> tests: the text written and the number of pattern
  characters the pattern pointer advances by (one in the last branch).\<close>

definition not_percent :: "char \<Rightarrow> bool" where
  "not_percent c = (c \<noteq> CHR ''%'')"

definition substitute :: "string \<Rightarrow> string \<Rightarrow> string \<Rightarrow> ushort \<Rightarrow> ushort \<Rightarrow> ushort \<Rightarrow> string \<Rightarrow> string \<times> nat" where
  "substitute path_artist path_album path_title year track disc p =
     (if take 7 p = ''%artist'' then (path_artist, 7)
      else if take 6 p = ''%album'' then (path_album, 6)
      else if take 6 p = ''%title'' then (path_title, 6)
      else if take 5 p = ''%year'' then (fmt_hu year, 5)
      else if take 6 p = ''%track'' then (fmt_02hu track, 6)
      else if take 5 p = ''%disc'' then (fmt_hu disc, 5)
      else ([], 1))"

function path_fill :: "string \<Rightarrow> string \<Rightarrow> string \<Rightarrow> ushort \<Rightarrow> ushort \<Rightarrow> ushort \<Rightarrow> string \<Rightarrow> string" where
  "path_fill path_artist path_album path_title year track disc pat =
     (if pat = [] then []
      else
        let p = dropWhile not_percent pat
        in takeWhile not_percent pat @
          (if p = [] then []
           else fst (substitute path_artist path_album path_title year track disc p) @
             path_fill path_artist path_album path_title year track disc
               (drop (snd (substitute path_artist path_album path_title year track disc p)) p)))"
  by pat_completeness auto
termination
proof (relation "measure (\<lambda>(a, b, c, y, t, d, pat). length pat)")
  show "wf (measure (\<lambda>(a, b, c, y, t, d, pat). length pat))"
    by simp
next
  fix a b c :: string and y t d :: ushort and pat p :: string
  assume "pat \<noteq> []" and p: "p = dropWhile not_percent pat" and ne: "p \<noteq> []"
  have "length p \<le> length pat"
    unfolding p by (rule length_dropWhile_le)
  moreover have "0 < length p"
    using ne by simp
  moreover have "0 < snd (substitute a b c y t d p)"
    by (simp add: substitute_def)
  ultimately show "((a, b, c, y, t, d, drop (snd (substitute a b c y t d p)) p),
      (a, b, c, y, t, d, pat)) \<in> measure (\<lambda>(a, b, c, y, t, d, pat). length pat)"
    by (simp del: length_greater_0_conv)
qed

declare path_fill.simps [simp del]

section \<open>The environment of the recorder\<close>

text \<open>The recorder runs against a file system, the C library's streams and the heap. The
  model keeps what the recorder can observe of them: the regular files with their contents
  and the directories, the open \<open>FILE\<close> objects with the file each one writes, the live heap
  strings, the outcomes of the coming allocations (\<open>True\<close>: the allocation succeeds; an empty
  list: they all succeed) and the number of bytes the device still accepts. No signal
  interrupts a system call, so the \<open>EINTR\<close> retry loops of \<open>_BarFlyFileOpenStream\<close> run once.

  The file system is a tree of directories and regular files without symbolic links, in
  which every name is accepted whatever its length and every access is permitted; the
  working directory of the player is the root of the tree. A file or a directory is kept
  under its canonical path, the names from the root joined by single slashes (the empty
  path for the root itself); the system calls resolve the path they are given.\<close>

datatype errno = ENOENT | EEXIST | ENOTEMPTY | ENOTDIR | EISDIR | EINVAL | EBUSY | ENOMEM

record world =
  fs_files :: "(string \<times> byte list) list"
  fs_dirs :: "string list"
  streams :: "(nat \<times> string) list"
  strings :: "(nat \<times> string) list"
  next_id :: nat
  allocs :: "bool list"
  room :: nat

text \<open>A call either returns, or fails an \<open>assert\<close> of the source, or has undefined behaviour
  in C (it uses a stream that was closed or memory that was freed, or it writes past the
  end of a buffer).\<close>

datatype 'a outcome = Returns 'a | AssertionFails | Undefined

definition alloc :: "world \<Rightarrow> bool \<times> world" where
  "alloc w = (case allocs w of [] \<Rightarrow> (True, w) | b # bs \<Rightarrow> (b, w\<lparr>allocs := bs\<rparr>))"

definition is_file :: "world \<Rightarrow> string \<Rightarrow> bool" where
  "is_file w p = (map_of (fs_files w) p \<noteq> None)"

definition is_dir :: "world \<Rightarrow> string \<Rightarrow> bool" where
  "is_dir w p = (p = [] \<or> p \<in> set (fs_dirs w))"

definition is_slash :: "char \<Rightarrow> bool" where
  "is_slash c = (c = CHR ''/'')"

text \<open>The prefixes of a path that end before a \<open>/\<close>, shortest first: the directory names that
  \<open>_BarFlyFileOpen\<close> walks with \<open>strchr\<close> and \<open>_BarFlyFileDelete\<close>, backwards, with \<open>strrchr\<close>.\<close>

definition dir_prefixes :: "string \<Rightarrow> string list" where
  "dir_prefixes path = map (\<lambda>i. take i path) (filter (\<lambda>i. is_slash (path ! i)) [0..<length path])"

definition inside :: "string \<Rightarrow> string \<Rightarrow> bool" where
  "inside d e = (take (Suc (length d)) e = d @ ''/'')"

text \<open>Path resolution. The names of a path are the texts between its slashes; an empty
  name (two slashes in a row, a slash at the start) and \<open>.\<close> stay in the directory, \<open>..\<close>
  goes to the parent (the root is its own parent), and every other name before the last
  one must be a directory. Slashes at the end of the path are dropped before the last
  name is taken. The result is the canonical path that the given path stands for, whether
  or not something exists there.\<close>

primrec split_slashes :: "string \<Rightarrow> string list" where
  "split_slashes [] = [[]]"
| "split_slashes (c # cs) =
     (if is_slash c then [] # split_slashes cs
      else (c # hd (split_slashes cs)) # tl (split_slashes cs))"

definition enter :: "string \<Rightarrow> string \<Rightarrow> string" where
  "enter cur name = (if cur = [] then name else cur @ ''/'' @ name)"

definition parent_of :: "string \<Rightarrow> string" where
  "parent_of cur = rev (drop 1 (dropWhile (\<lambda>c. \<not> is_slash c) (rev cur)))"

primrec walk :: "world \<Rightarrow> string \<Rightarrow> string list \<Rightarrow> errno + string" where
  "walk w cur [] = Inr cur"
| "walk w cur (name # names) =
     (if name = [] \<or> name = ''.'' then walk w cur names
      else if name = ''..'' then walk w (parent_of cur) names
      else if is_dir w (enter cur name) then walk w (enter cur name) names
      else if is_file w (enter cur name) then Inl ENOTDIR
      else Inl ENOENT)"

definition strip_slashes :: "string \<Rightarrow> string" where
  "strip_slashes p = rev (dropWhile is_slash (rev p))"

definition last_name :: "string \<Rightarrow> string" where
  "last_name p = last (split_slashes (strip_slashes p))"

definition trailing_slash :: "string \<Rightarrow> bool" where
  "trailing_slash p = (p \<noteq> [] \<and> is_slash (last p))"

definition resolve :: "world \<Rightarrow> string \<Rightarrow> errno + string" where
  "resolve w p =
     (if p = [] then Inl ENOENT
      else case walk w [] (butlast (split_slashes (strip_slashes p))) of
             Inl e \<Rightarrow> Inl e
           | Inr cur \<Rightarrow>
               if last_name p = [] \<or> last_name p = ''.'' then Inr cur
               else if last_name p = ''..'' then Inr (parent_of cur)
               else Inr (enter cur (last_name p)))"

text \<open>A path all of whose names are ordinary: none is empty, \<open>.\<close> or \<open>..\<close>.\<close>

definition clean :: "string \<Rightarrow> bool" where
  "clean p = list_all (\<lambda>name. name \<noteq> [] \<and> name \<noteq> ''.'' \<and> name \<noteq> ''..'') (split_slashes p)"

definition mkdir :: "world \<Rightarrow> string \<Rightarrow> errno + world" where
  "mkdir w p =
     (case resolve w p of
        Inl e \<Rightarrow> Inl e
      | Inr d \<Rightarrow>
          if is_file w d \<or> is_dir w d then Inl EEXIST
          else Inr (w\<lparr>fs_dirs := d # fs_dirs w\<rparr>))"

definition rmdir :: "world \<Rightarrow> string \<Rightarrow> errno + world" where
  "rmdir w p =
     (case resolve w p of
        Inl e \<Rightarrow> Inl e
      | Inr d \<Rightarrow>
          if last_name p = ''.'' then Inl EINVAL
          else if last_name p = ''..'' then Inl ENOTEMPTY
          else if d = [] then Inl EBUSY
          else if is_file w d then Inl ENOTDIR
          else if \<not> is_dir w d then Inl ENOENT
          else if \<exists>e\<in>set (map fst (fs_files w) @ fs_dirs w). inside d e then Inl ENOTEMPTY
          else Inr (w\<lparr>fs_dirs := removeAll d (fs_dirs w)\<rparr>))"

definition unlink :: "world \<Rightarrow> string \<Rightarrow> errno + world" where
  "unlink w p =
     (case resolve w p of
        Inl e \<Rightarrow> Inl e
      | Inr f \<Rightarrow>
          if is_file w f
          then (if trailing_slash p then Inl ENOTDIR
                else Inr (w\<lparr>fs_files := filter (\<lambda>x. fst x \<noteq> f) (fs_files w)\<rparr>))
          else if is_dir w f then Inl EISDIR
          else Inl ENOENT)"

text \<open>\<open>_BarFlyFileOpenStream\<close>: \<open>open\<close> with \<open>O_WRONLY | O_CREAT | O_EXCL\<close>, then \<open>fdopen\<close>, which
  allocates the \<open>FILE\<close> object. When \<open>fdopen\<close> fails the descriptor is closed and the
  file that \<open>open\<close> created stays.\<close>

definition BarFlyFileOpenStream :: "world \<Rightarrow> string \<Rightarrow> (errno + nat) \<times> world" where
  "BarFlyFileOpenStream w p =
     (case resolve w p of
        Inl e \<Rightarrow> (Inl e, w)
      | Inr f \<Rightarrow>
          if is_file w f \<or> is_dir w f then (Inl EEXIST, w)
          else if trailing_slash p then (Inl EISDIR, w)
          else
            let w1 = w\<lparr>fs_files := (f, []) # fs_files w\<rparr>
            in if \<not> fst (alloc w1) then (Inl ENOMEM, snd (alloc w1))
               else (Inr (next_id w),
                 (snd (alloc w1))\<lparr>streams := (next_id w, f) # streams w,
                   next_id := Suc (next_id w)\<rparr>))"

definition fclose :: "world \<Rightarrow> nat \<Rightarrow> world outcome" where
  "fclose w h =
     (case map_of (streams w) h of
        None \<Rightarrow> Undefined
      | Some p \<Rightarrow> Returns (w\<lparr>streams := filter (\<lambda>s. fst s \<noteq> h) (streams w)\<rparr>))"

text \<open>\<open>fwrite(data, size, nmemb, stream)\<close> returns the number of whole items written, which
  is 0 when \<open>size\<close> or \<open>nmemb\<close> is 0; the bytes the device accepts reach the file.\<close>

definition append_file :: "string \<Rightarrow> byte list \<Rightarrow> (string \<times> byte list) list \<Rightarrow> (string \<times> byte list) list" where
  "append_file p bs fs = map (\<lambda>f. if fst f = p then (fst f, snd f @ bs) else f) fs"

definition fwrite :: "world \<Rightarrow> byte list \<Rightarrow> nat \<Rightarrow> nat \<Rightarrow> nat \<Rightarrow> (nat \<times> world) outcome" where
  "fwrite w data sz nmemb h =
     (case map_of (streams w) h of
        None \<Rightarrow> Undefined
      | Some p \<Rightarrow>
          if sz = 0 \<or> nmemb = 0 then Returns (0, w)
          else
            let k = min (room w) (sz * nmemb)
            in Returns (k div sz,
                 w\<lparr>fs_files := append_file p (take k data) (fs_files w), room := room w - k\<rparr>))"

definition new_string :: "world \<Rightarrow> string \<Rightarrow> nat \<times> world" where
  "new_string w s = (next_id w, w\<lparr>strings := (next_id w, s) # strings w, next_id := Suc (next_id w)\<rparr>)"

definition free :: "world \<Rightarrow> nat \<Rightarrow> world outcome" where
  "free w a =
     (case map_of (strings w) a of
        None \<Rightarrow> Undefined
      | Some s \<Rightarrow> Returns (w\<lparr>strings := filter (\<lambda>s. fst s \<noteq> a) (strings w)\<rparr>))"

definition free_if_set :: "world \<Rightarrow> nat option \<Rightarrow> world outcome" where
  "free_if_set w ptr = (case ptr of None \<Rightarrow> Returns w | Some a \<Rightarrow> free w a)"

definition obind :: "'a outcome \<Rightarrow> ('a \<Rightarrow> 'b outcome) \<Rightarrow> 'b outcome" where
  "obind m f = (case m of Returns x \<Rightarrow> f x | AssertionFails \<Rightarrow> AssertionFails | Undefined \<Rightarrow> Undefined)"

section \<open>fly.h, fly.c: the recorder\<close>

datatype BarFlyStatus = NOT_RECORDING | NOT_RECORDING_EXIST | RECORDING | DELETING | TAGGING

text \<open>\<open>BarFly_t\<close>. A pointer is \<open>None\<close> when it is \<open>NULL\<close>; otherwise it names a stream or a
  heap string of the world, which it may outlive.\<close>

record BarFly =
  audio_file :: "nat option"
  audio_file_path :: "nat option"
  audio_format :: PianoAudioFormat
  completed :: bool
  artist :: string
  album :: string
  title :: string
  year :: ushort
  track :: ushort
  disc :: ushort
  cover_art_url :: "nat option"
  status :: BarFlyStatus

text \<open>The fields of \<open>PianoSong_t\<close> that \<open>BarFlyOpen\<close> reads.\<close>

record PianoSong =
  song_artist :: string
  song_album :: string
  song_title :: string
  audioFormat :: PianoAudioFormat
  albumDetailURL :: string
  albumExplorerUrl :: string

text \<open>What the network and the regular-expression library answer: \<open>_BarFlyFetchURL\<close>
  (libwaitress), and the matches that \<open>_BarFlyParseYear\<close>, \<open>_BarFlyParseCoverArtURL\<close> and
  \<open>_BarFlyParseTrackDisc\<close> extract with \<open>regexec\<close>; \<open>None\<close> is a failed fetch or a miss.\<close>

record scraper =
  fetch :: "string \<Rightarrow> string option"
  parse_year :: "string \<Rightarrow> ushort option"
  parse_cover :: "string \<Rightarrow> string option"
  parse_track_disc :: "string \<Rightarrow> string \<Rightarrow> (ushort \<times> ushort) option"

text \<open>\<open>_BarFlyFileGetPath\<close>: the names are translated into buffers of \<open>BAR_FLY_NAME_LENGTH\<close>
  bytes, which \<open>_BarFlyNameTranslate\<close> fills without looking at their size: a translated
  name of \<open>BAR_FLY_NAME_LENGTH\<close> bytes or more, with its terminator, is written past the end
  of its buffer. The extension is chosen from the audio format (\<open>NULL\<close> for a format that
  is not supported), the buffer is allocated and filled. The result is the text of the new
  buffer.\<close>

definition extension_of :: "PianoAudioFormat \<Rightarrow> string option" where
  "extension_of fmt =
     (case fmt of
        PIANO_AF_AACPLUS \<Rightarrow> Some ''.m4a''
      | PIANO_AF_MP3 \<Rightarrow> Some ''.mp3''
      | PIANO_AF_MP3_HI \<Rightarrow> Some ''.mp3''
      | PIANO_AF_UNKNOWN \<Rightarrow> None)"

definition begins_token :: "string \<Rightarrow> bool" where
  "begins_token p = (take 7 p = ''%artist'' \<or> take 6 p = ''%album'' \<or> take 6 p = ''%title'' \<or>
     take 5 p = ''%year'' \<or> take 6 p = ''%track'' \<or> take 5 p = ''%disc'')"

definition BarFlyFileGetPath ::
  "world \<Rightarrow> string \<Rightarrow> string \<Rightarrow> string \<Rightarrow> ushort \<Rightarrow> ushort \<Rightarrow> ushort \<Rightarrow> PianoAudioFormat \<Rightarrow> BarSettings \<Rightarrow>
     (string option \<times> world) outcome" where
  "BarFlyFileGetPath w a b c y t d fmt settings =
     (let path_artist = BarFlyNameTranslate a BAR_FLY_NAME_LENGTH settings;
          path_album = BarFlyNameTranslate b BAR_FLY_NAME_LENGTH settings;
          path_title = BarFlyNameTranslate c BAR_FLY_NAME_LENGTH settings
      in if \<not> (length path_artist < BAR_FLY_NAME_LENGTH \<and> length path_album < BAR_FLY_NAME_LENGTH \<and>
               length path_title < BAR_FLY_NAME_LENGTH)
         then Undefined
         else case extension_of fmt of
           None \<Rightarrow> Returns (None, w)
         | Some extension \<Rightarrow>
             if \<not> fst (alloc w) then Returns (None, snd (alloc w))
             else Returns (Some (path_fill path_artist path_album path_title y t d
                          (audioFileName settings) @ extension), snd (alloc w)))"

text \<open>\<open>_BarFlyFileOpen\<close>: create the parent directories (an existing one is fine), then open
  the file, which must be new. The status is 0, -2 (the file exists) or -1.\<close>

primrec make_parents :: "world \<Rightarrow> string list \<Rightarrow> bool \<times> world" where
  "make_parents w [] = (True, w)"
| "make_parents w (d # ds) =
     (if \<not> fst (alloc w) then (False, snd (alloc w))
      else case mkdir (snd (alloc w)) d of
             Inl e \<Rightarrow> if e = EEXIST then make_parents (snd (alloc w)) ds else (False, snd (alloc w))
           | Inr w' \<Rightarrow> make_parents w' ds)"

definition BarFlyFileOpen :: "world \<Rightarrow> string \<Rightarrow> int \<times> nat option \<times> world" where
  "BarFlyFileOpen w path =
     (case make_parents w (dir_prefixes path) of
        (False, w1) \<Rightarrow> (-1, None, w1)
      | (True, w1) \<Rightarrow>
          (case BarFlyFileOpenStream w1 path of
             (Inl e, w2) \<Rightarrow> if e = EEXIST then (-2, None, w2) else (-1, None, w2)
           | (Inr h, w2) \<Rightarrow> (0, Some h, w2)))"

text \<open>\<open>_BarFlyFileDelete\<close>: unlink the file, then remove the parent directories from the
  deepest one upwards; a directory that is not empty is not an error.\<close>

primrec remove_parents :: "world \<Rightarrow> string list \<Rightarrow> int \<times> world" where
  "remove_parents w [] = (0, w)"
| "remove_parents w (d # ds) =
     (case rmdir w d of
        Inl e \<Rightarrow> if e \<noteq> ENOTEMPTY \<and> e \<noteq> EEXIST then (-1, w) else remove_parents w ds
      | Inr w' \<Rightarrow> remove_parents w' ds)"

definition BarFlyFileDelete :: "world \<Rightarrow> BarFly \<Rightarrow> (int \<times> world) outcome" where
  "BarFlyFileDelete w fly =
     (case audio_file_path fly of
        None \<Rightarrow> Returns (0, w)
      | Some a \<Rightarrow>
          (case map_of (strings w) a of
             None \<Rightarrow> Undefined
           | Some path \<Rightarrow>
               (case unlink w path of
                  Inl e \<Rightarrow> Returns (-1, w)
                | Inr w1 \<Rightarrow>
                    if \<not> fst (alloc w1) then Returns (-1, snd (alloc w1))
                    else Returns (remove_parents (snd (alloc w1)) (rev (dir_prefixes path))))))"

text \<open>\<open>BarFlyClose\<close>. The stream is closed and the two strings are freed; none of the three
  pointers is reset.\<close>

definition BarFlyClose :: "world \<Rightarrow> BarFly option \<Rightarrow> (int \<times> BarFly option \<times> world) outcome" where
  "BarFlyClose w fly_ptr =
     (case fly_ptr of
        None \<Rightarrow> Returns (0, None, w)
      | Some fly \<Rightarrow>
          obind (case audio_file fly of None \<Rightarrow> Returns w | Some h \<Rightarrow> fclose w h) (\<lambda>w1.
          obind (if \<not> completed fly
                 then obind (BarFlyFileDelete w1 (fly\<lparr>status := DELETING\<rparr>)) (\<lambda>r.
                        Returns (if fst r \<noteq> 0 then -1 else 0, fly\<lparr>status := DELETING\<rparr>, snd r))
                 else Returns (0, fly, w1)) (\<lambda>(exit_status, fly1, w2).
          obind (free_if_set w2 (audio_file_path fly1)) (\<lambda>w3.
          obind (free_if_set w3 (cover_art_url fly1)) (\<lambda>w4.
          Returns (exit_status, Some fly1, w4))))))"

text \<open>\<open>BarFlyOpen\<close>. \<open>output_fly\<close> is built first; it is copied over the caller's structure
  only when the file was opened or was found to exist. When the album explorer page was
  fetched, \<open>_BarFlyParseTrackDisc\<close> copies the title, without its question marks and with
  the regular-expression characters replaced, into a buffer of \<open>BAR_FLY_NAME_LENGTH\<close> bytes
  whose size it does not look at.\<close>

definition regex_meta :: "char \<Rightarrow> bool" where
  "regex_meta c = (c \<in> set (''^$()><[{'' @ [CHR 0x5C] @ ''|.*+&''))"

definition regex_title :: "string \<Rightarrow> string" where
  "regex_title t = map (\<lambda>c. if regex_meta c then CHR ''.'' else c) (filter (\<lambda>c. c \<noteq> CHR ''?'') t)"

definition open_metadata ::
  "scraper \<Rightarrow> PianoSong \<Rightarrow> (int \<times> ushort \<times> string option \<times> ushort \<times> ushort) outcome" where
  "open_metadata sc song =
     (let detail = fetch sc (albumDetailURL song);
          exit_status = (if detail = None then -1 else 0);
          y = (case detail of None \<Rightarrow> None | Some html \<Rightarrow> parse_year sc html);
          exit_status = (if detail \<noteq> None \<and> y = None then -1 else exit_status);
          cover = (case detail of None \<Rightarrow> None | Some html \<Rightarrow> parse_cover sc html);
          exit_status = (if detail \<noteq> None \<and> cover = None then -1 else exit_status);
          explorer = fetch sc (albumExplorerUrl song);
          exit_status = (if explorer = None then -1 else exit_status);
          td = (case explorer of None \<Rightarrow> None | Some xml \<Rightarrow> parse_track_disc sc (song_title song) xml);
          exit_status = (if explorer \<noteq> None \<and> td = None then -1 else exit_status)
      in if explorer \<noteq> None \<and> \<not> length (regex_title (song_title song)) < BAR_FLY_NAME_LENGTH
         then Undefined
         else Returns (exit_status,
          (case y of None \<Rightarrow> 0 | Some v \<Rightarrow> v),
          cover,
          (case td of None \<Rightarrow> 0 | Some v \<Rightarrow> fst v),
          (case td of None \<Rightarrow> 0 | Some v \<Rightarrow> snd v)))"

definition output_fly_init :: "PianoSong \<Rightarrow> ushort \<Rightarrow> ushort \<Rightarrow> ushort \<Rightarrow> nat option \<Rightarrow> BarFly" where
  "output_fly_init song y t d cover =
     \<lparr>audio_file = None, audio_file_path = None, audio_format = audioFormat song,
      completed = False,
      artist = take (BAR_FLY_NAME_LENGTH - 1) (song_artist song),
      album = take (BAR_FLY_NAME_LENGTH - 1) (song_album song),
      title = take (BAR_FLY_NAME_LENGTH - 1) (song_title song),
      year = y, track = t, disc = d, cover_art_url = cover, status = NOT_RECORDING\<rparr>"

definition BarFlyOpen :: "scraper \<Rightarrow> world \<Rightarrow> BarFly \<Rightarrow> PianoSong \<Rightarrow> BarSettings \<Rightarrow> (int \<times> BarFly \<times> world) outcome" where
  "BarFlyOpen sc w fly song settings =
     obind (open_metadata sc song) (\<lambda>(exit_status, y, cover, t, d).
        let (cover_ptr, w1) = (case cover of None \<Rightarrow> (None, w)
                               | Some url \<Rightarrow> (Some (fst (new_string w url)), snd (new_string w url)));
            output_fly = output_fly_init song y t d cover_ptr
        in obind (BarFlyFileGetPath w1 (song_artist song) (song_album song) (song_title song)
                  y t d (audioFormat song) settings) (\<lambda>built.
           case built of
             (None, w2) \<Rightarrow>
               obind (free_if_set w2 cover_ptr) (\<lambda>w3. Returns (-1, fly, w3))
           | (Some path, w2) \<Rightarrow>
               (case new_string w2 path of (path_ptr, w3) \<Rightarrow>
                 (case BarFlyFileOpen w3 path of (st, file, w4) \<Rightarrow>
                    if st = 0
                    then Returns (exit_status,
                           output_fly\<lparr>audio_file_path := Some path_ptr, audio_file := file,
                             status := RECORDING\<rparr>, w4)
                    else if st = -2
                    then Returns (exit_status,
                           output_fly\<lparr>audio_file_path := Some path_ptr, audio_file := file,
                             status := NOT_RECORDING_EXIST, completed := True\<rparr>, w4)
                    else
                      obind (free w4 path_ptr) (\<lambda>w5.
                      obind (free_if_set w5 cover_ptr) (\<lambda>w6. Returns (-1, fly, w6)))))))"

text \<open>\<open>BarFlyTag\<close>. \<open>_BarFlyTagWrite\<close> receives the structure through a pointer to \<open>const\<close>:
  it contributes its status and what it does to the world. Nothing between the test of
  \<open>completed\<close> and the call closes the stream.\<close>

definition BarFlyTag ::
  "(world \<Rightarrow> BarFly \<Rightarrow> BarSettings \<Rightarrow> int \<times> world) \<Rightarrow> world \<Rightarrow> BarFly \<Rightarrow> BarSettings \<Rightarrow> (int \<times> BarFly \<times> world) outcome" where
  "BarFlyTag BarFlyTagWrite w fly settings =
     (if \<not> completed fly
      then (case audio_file fly of
              None \<Rightarrow> AssertionFails
            | Some h \<Rightarrow>
                let fly1 = fly\<lparr>status := TAGGING\<rparr>;
                    r = BarFlyTagWrite w fly1 settings
                in Returns (if fst r \<noteq> 0 then -1 else 0, fly1\<lparr>completed := True\<rparr>, snd r))
      else Returns (0, fly, w))"

text \<open>\<open>BarFlyWrite\<close>: the whole buffer is one item for \<open>fwrite\<close>.\<close>

definition BarFlyWrite :: "world \<Rightarrow> BarFly \<Rightarrow> byte list \<Rightarrow> (int \<times> world) outcome" where
  "BarFlyWrite w fly data =
     (if \<not> completed fly
      then (case audio_file fly of
              None \<Rightarrow> AssertionFails
            | Some h \<Rightarrow>
                obind (fwrite w data (length data) 1 h) (\<lambda>r.
                  Returns (if fst r \<noteq> 1 then -1 else 0, snd r)))
      else Returns (0, w))"

text \<open>A world with an empty recording root, in which every allocation succeeds.\<close>

definition world0 :: world where
  "world0 = \<lparr>fs_files = [], fs_dirs = [], streams = [], strings = [], next_id = 0, allocs = [],
     room = 64\<rparr>"

text \<open>Example inputs: no network, a song and a template with one directory level, and a
  zeroed recorder structure.\<close>

definition scraper_offline :: scraper where
  "scraper_offline = \<lparr>fetch = (\<lambda>url. None), parse_year = (\<lambda>html. None),
     parse_cover = (\<lambda>html. None), parse_track_disc = (\<lambda>t xml. None)\<rparr>"

definition song0 :: PianoSong where
  "song0 = \<lparr>song_artist = ''A'', song_album = ''B'', song_title = ''C'',
     audioFormat = PIANO_AF_MP3, albumDetailURL = ''d'', albumExplorerUrl = ''e''\<rparr>"

definition settings0 :: BarSettings where
  "settings0 = \<lparr>audioFileName = ''%artist/%title'', useSpaces = False, embedCover = False\<rparr>"

definition fly_blank :: BarFly where
  "fly_blank = \<lparr>audio_file = None, audio_file_path = None, audio_format = PIANO_AF_UNKNOWN,
     completed = False, artist = [], album = [], title = [], year = 0, track = 0, disc = 0,
     cover_art_url = None, status = NOT_RECORDING\<rparr>"

text \<open>The recorder and the world after \<open>BarFlyOpen\<close> on these inputs.\<close>

definition fly_recording :: BarFly where
  "fly_recording = \<lparr>audio_file = Some 1, audio_file_path = Some 0, audio_format = PIANO_AF_MP3,
     completed = False, artist = ''A'', album = ''B'', title = ''C'', year = 0, track = 0,
     disc = 0, cover_art_url = None, status = RECORDING\<rparr>"

definition world_recording :: world where
  "world_recording = \<lparr>fs_files = [(''A/C.mp3'', [])], fs_dirs = [''A''],
     streams = [(1, ''A/C.mp3'')], strings = [(0, ''A/C.mp3'')], next_id = 2, allocs = [],
     room = 64\<rparr>"

text \<open>The world after the file of that recorder and its directory have been removed.\<close>

definition world_closed :: world where
  "world_closed = \<lparr>fs_files = [], fs_dirs = [], streams = [], strings = [], next_id = 2,
     allocs = [], room = 64\<rparr>"

section \<open>fly.c: the options of the ID3 tag\<close>

text \<open>\<open>_BarFlyTagID3Write\<close> creates the tag with \<open>id3_tag_new\<close> and then calls
  \<open>id3_tag_options(tag, mask, 0)\<close> with the four option flags below in the mask. libid3tag is
  an external library; its \<open>id3_tag_options(tag, mask, values)\<close> replaces the option bits
  selected by \<open>mask\<close> with those of \<open>values\<close> (and only reads the options when \<open>mask\<close> is 0).
  The options are a bit set in a C \<open>int\<close>; \<open>options\<close> below is the value that \<open>id3_tag_new\<close>
  left in the tag.\<close>

definition ID3_TAG_OPTION_UNSYNCHRONISATION :: int where
  "ID3_TAG_OPTION_UNSYNCHRONISATION = 0x0001"

definition ID3_TAG_OPTION_COMPRESSION :: int where
  "ID3_TAG_OPTION_COMPRESSION = 0x0002"

definition ID3_TAG_OPTION_CRC :: int where
  "ID3_TAG_OPTION_CRC = 0x0004"

definition ID3_TAG_OPTION_APPENDEDTAG :: int where
  "ID3_TAG_OPTION_APPENDEDTAG = 0x0010"

definition id3_tag_options :: "int \<Rightarrow> int \<Rightarrow> int \<Rightarrow> int" where
  "id3_tag_options options msk values =
     (if msk \<noteq> 0 then (options AND NOT msk) OR (values AND msk) else options)"

definition BarFlyTagID3Write_options :: "int \<Rightarrow> int" where
  "BarFlyTagID3Write_options options =
     id3_tag_options options
       (ID3_TAG_OPTION_UNSYNCHRONISATION OR ID3_TAG_OPTION_APPENDEDTAG OR
        ID3_TAG_OPTION_CRC OR ID3_TAG_OPTION_COMPRESSION) 0"

definition option_enabled :: "int \<Rightarrow> int \<Rightarrow> bool" where
  "option_enabled options flag = (options AND flag \<noteq> 0)"

section \<open>fly_mp4.c: atoms\<close>

text \<open>The model is of an LP64 build: \<open>size_t\<close> and \<open>long\<close> have 64 bits and \<open>int\<close> has 32.
  An atom is the structure \<open>BarFlyMp4Atom\<close> with its children in place of the array of child
  pointers. The \<open>parent\<close> pointer is not stored: an atom that belongs to a list of atoms (the
  top-level atoms of a tag, or a single atom that has no parent yet) is addressed by the
  indices that lead to it, and its parent chain is the chain of the prefixes of that path.
  Names are C strings; file offsets are \<open>long\<close> values, -1 for an atom that did not come from
  the file.\<close>

type_synonym size_t = "64 word"

datatype BarFlyMp4Atom =
  Atom (a_name: string) (a_size: size_t) (a_children: "BarFlyMp4Atom list")
    (a_data: "byte list option") (a_data_size: size_t) (a_offset: int)

definition set_size :: "size_t \<Rightarrow> BarFlyMp4Atom \<Rightarrow> BarFlyMp4Atom" where
  "set_size s a = Atom (a_name a) s (a_children a) (a_data a) (a_data_size a) (a_offset a)"

definition set_children :: "BarFlyMp4Atom list \<Rightarrow> BarFlyMp4Atom \<Rightarrow> BarFlyMp4Atom" where
  "set_children cs a = Atom (a_name a) (a_size a) cs (a_data a) (a_data_size a) (a_offset a)"

definition set_data :: "byte list option \<Rightarrow> size_t \<Rightarrow> BarFlyMp4Atom \<Rightarrow> BarFlyMp4Atom" where
  "set_data d n a = Atom (a_name a) (a_size a) (a_children a) d n (a_offset a)"

primrec lookup_at :: "nat list \<Rightarrow> BarFlyMp4Atom list \<Rightarrow> BarFlyMp4Atom option" where
  "lookup_at [] as = None"
| "lookup_at (i # p) as =
     (if i < length as
      then (if p = [] then Some (as ! i) else lookup_at p (a_children (as ! i)))
      else None)"

primrec modify_at :: "nat list \<Rightarrow> (BarFlyMp4Atom \<Rightarrow> BarFlyMp4Atom) \<Rightarrow> BarFlyMp4Atom list \<Rightarrow> BarFlyMp4Atom list" where
  "modify_at [] f as = as"
| "modify_at (i # p) f as =
     (if i < length as
      then (if p = [] then as[i := f (as ! i)]
            else as[i := set_children (modify_at p f (a_children (as ! i))) (as ! i)])
      else as)"

text \<open>The outcomes of the coming allocations, as in the world of the recorder.\<close>

definition allocate :: "bool list \<Rightarrow> bool \<times> bool list" where
  "allocate m = (case m of [] \<Rightarrow> (True, []) | b # bs \<Rightarrow> (b, bs))"

text \<open>\<open>_BarFlyMp4AtomBumpSize\<close>: add the delta to the atom, then to its parent if it has one.\<close>

function AtomBumpSize :: "BarFlyMp4Atom list \<Rightarrow> nat list \<Rightarrow> size_t \<Rightarrow> BarFlyMp4Atom list" where
  "AtomBumpSize as atom delta =
     (if length atom \<le> 1 then modify_at atom (\<lambda>a. set_size (a_size a + delta) a) as
      else AtomBumpSize (modify_at atom (\<lambda>a. set_size (a_size a + delta) a) as) (butlast atom) delta)"
  by pat_completeness auto
termination
  by (relation "measure (\<lambda>(as, atom, delta). length atom)") auto

declare AtomBumpSize.simps [simp del]

text \<open>\<open>_BarFlyMp4AtomAddChild\<close>.\<close>

definition AtomAddChild ::
  "bool list \<Rightarrow> BarFlyMp4Atom list \<Rightarrow> nat list \<Rightarrow> BarFlyMp4Atom \<Rightarrow> int \<times> BarFlyMp4Atom list \<times> bool list" where
  "AtomAddChild m as parent child =
     (if \<not> fst (allocate m) then (-1, as, snd (allocate m))
      else (0,
        AtomBumpSize (modify_at parent (\<lambda>p. set_children (a_children p @ [child]) p) as)
          parent (a_size child),
        snd (allocate m)))"

text \<open>Big-endian integers. \<open>_BarFlyMp4BufToLong\<close> shifts each byte as an \<open>int\<close> and ors it
  into a \<open>long\<close>, so a first byte of 0x80 or more is sign-extended.\<close>

definition BufToLong :: "byte list \<Rightarrow> 64 word" where
  "BufToLong buffer =
     fold (\<lambda>index number.
             number OR scast (push_bit (8 * (3 - index)) (ucast (buffer ! index) :: 32 word)))
       [0, 1, 2, 3] 0"

definition LongRender :: "64 word \<Rightarrow> byte list" where
  "LongRender lsize = map (\<lambda>index. ucast (drop_bit (8 * (3 - index)) lsize)) [0, 1, 2, 3]"

definition ShortRender :: "ushort \<Rightarrow> byte list" where
  "ShortRender v = map (\<lambda>index. ucast (drop_bit (8 * (1 - index)) v)) [0, 1]"

text \<open>Reading the MP4 file: its bytes and a position. A read of \<open>n\<close> bytes succeeds when
  the file has them; a seek succeeds when the new position is not negative.\<close>

definition fread :: "byte list \<Rightarrow> int \<Rightarrow> nat \<Rightarrow> byte list option" where
  "fread file pos n =
     (if 0 \<le> pos \<and> nat pos + n \<le> length file then Some (take n (drop (nat pos) file)) else None)"

definition cstring :: "byte list \<Rightarrow> string" where
  "cstring bs = map (\<lambda>b. char_of (unat b)) (takeWhile (\<lambda>b. b \<noteq> 0) bs)"

definition name_bytes :: "string \<Rightarrow> byte list" where
  "name_bytes s = take 4 (map (\<lambda>c. of_nat (of_char c)) s @ replicate 4 0)"

definition FileParseLong :: "byte list \<Rightarrow> int \<Rightarrow> (64 word \<times> int) option" where
  "FileParseLong file pos =
     (case fread file pos 4 of None \<Rightarrow> None | Some buf \<Rightarrow> Some (BufToLong buf, pos + 4))"

definition BAR_FLY_MP4_ATOM_MIN_LENGTH :: size_t where
  "BAR_FLY_MP4_ATOM_MIN_LENGTH = 8"

definition FileParseAtomSize :: "byte list \<Rightarrow> int \<Rightarrow> (size_t \<times> int) option" where
  "FileParseAtomSize file pos =
     (case FileParseLong file pos of
        None \<Rightarrow> None
      | Some (sz, pos') \<Rightarrow> if sz < BAR_FLY_MP4_ATOM_MIN_LENGTH then None else Some (sz, pos'))"

definition FileParseAtomName :: "byte list \<Rightarrow> int \<Rightarrow> (string \<times> int) option" where
  "FileParseAtomName file pos =
     (case fread file pos 4 of None \<Rightarrow> None | Some buf \<Rightarrow> Some (cstring buf, pos + 4))"

text \<open>\<open>_BarFlyMp4AtomOpen\<close>.\<close>

definition AtomOpen :: "bool list \<Rightarrow> string \<Rightarrow> int \<Rightarrow> BarFlyMp4Atom option \<times> bool list" where
  "AtomOpen m name offset =
     (if \<not> fst (allocate m) then (None, snd (allocate m))
      else (Some (Atom (take 4 name) BAR_FLY_MP4_ATOM_MIN_LENGTH [] None 0 offset), snd (allocate m)))"

text \<open>\<open>_BarFlyMp4FileParseAtomData\<close>: read the payload of an atom if it has one that was
  not read yet and its name is one of the atoms with data only (or \<open>ftyp\<close>). On an error
  the file position is set back.\<close>

definition data_names :: "string list" where
  "data_names = [''dref'', ''esds'', ''ftyp'', ''hdlr'', ''iods'', ''mdhd'', ''mvhd'', ''smhd'',
     ''stco'', ''stsc'', ''stsz'', ''stts'', ''tkhd'']"

definition FileParseAtomData ::
  "bool list \<Rightarrow> byte list \<Rightarrow> int \<Rightarrow> BarFlyMp4Atom \<Rightarrow> (int \<times> BarFlyMp4Atom \<times> int \<times> bool list) outcome" where
  "FileParseAtomData m file pos atom =
     (if a_data atom = None \<and> 0 < a_data_size atom
      then (if a_offset atom = -1 then AssertionFails
            else if a_name atom \<in> set data_names
            then (if a_offset atom + 8 < 0 then Returns (-1, atom, pos, m)
                  else if \<not> fst (allocate m) then Returns (-1, atom, pos, snd (allocate m))
                  else (case fread file (a_offset atom + 8) (unat (a_data_size atom)) of
                          None \<Rightarrow> Returns (-1, atom, pos, snd (allocate m))
                        | Some buf \<Rightarrow>
                            Returns (0, set_data (Some buf) (a_data_size atom) atom,
                              a_offset atom + 8 + int (unat (a_data_size atom)), snd (allocate m))))
            else Returns (0, atom, pos, m))
      else Returns (0, atom, pos, m))"

text \<open>\<open>_BarFlyMp4AtomAppendData\<close>. When the payload was not read (the name is not one of
  those above), \<open>realloc\<close> leaves the first \<open>data_size\<close> bytes of the buffer indeterminate.\<close>

definition buffer_of :: "BarFlyMp4Atom \<Rightarrow> byte list" where
  "buffer_of a =
     (case a_data a of
        Some buf \<Rightarrow> buf
      | None \<Rightarrow> map (\<lambda>i. undefined) [0..<unat (a_data_size a)])"

definition append_to :: "byte list \<Rightarrow> BarFlyMp4Atom \<Rightarrow> BarFlyMp4Atom" where
  "append_to bytes a =
     set_size (a_size a + of_nat (length bytes))
       (set_data (Some (buffer_of a @ bytes)) (a_data_size a + of_nat (length bytes)) a)"

definition AtomAppendData ::
  "bool list \<Rightarrow> BarFlyMp4Atom list \<Rightarrow> nat list \<Rightarrow> byte list \<Rightarrow> int \<Rightarrow> byte list \<Rightarrow>
     (int \<times> BarFlyMp4Atom list \<times> int \<times> bool list) outcome" where
  "AtomAppendData m as atom file pos bytes =
     (if bytes \<noteq> []
      then (case lookup_at atom as of
              None \<Rightarrow> AssertionFails
            | Some a \<Rightarrow>
                obind (FileParseAtomData m file pos a) (\<lambda>(st, a', pos', m').
                  if st \<noteq> 0 then Returns (-1, modify_at atom (\<lambda>x. a') as, pos', m')
                  else if \<not> fst (allocate m')
                  then Returns (-1, modify_at atom (\<lambda>x. a') as, pos', snd (allocate m'))
                  else
                    let as' = modify_at atom (\<lambda>x. append_to bytes a') as
                    in Returns (0,
                         (if 1 < length atom
                          then AtomBumpSize as' (butlast atom) (of_nat (length bytes))
                          else as'),
                         pos', snd (allocate m'))))
      else Returns (0, as, pos, m))"

text \<open>The invariant of the sizes: the size of an atom is 8 plus the size of its payload plus
  the sizes of its children, in the arithmetic of \<open>size_t\<close>, and so for every atom below it.\<close>

fun size_ok :: "BarFlyMp4Atom \<Rightarrow> bool" where
  "size_ok (Atom n s cs d ds off) =
     (s = 8 + ds + sum_list (map a_size cs) \<and> list_all size_ok cs)"

section \<open>fly_mp4.c: parsing the file\<close>

text \<open>\<open>_BarFlyMp4FileParseAtom\<close> reads the size and the name, creates the atom, sets the
  payload size and the size by the kind of the atom, seeks over the payload and reads
  children until the size read from the file is used up. \<open>parse_header\<close> is the part before
  the loop: the atom, the position after the payload and what remains for the children.
  The recursion need not end (a payload size read as negative seeks backwards), so the
  model counts it down: \<open>None\<close> is a parse that did not return within the given depth. A
  parse that returns gives \<open>NULL\<close> with the position it started from, or the atom with the
  position after it.\<close>

definition children_names :: "string list" where
  "children_names = [''dinf'', ''mdia'', ''minf'', ''moov'', ''stbl'', ''trak'']"

definition parse_names :: "string list" where
  "parse_names = [''dref'', ''esds'', ''hdlr'', ''iods'', ''mdhd'', ''mvhd'', ''smhd'',
     ''stco'', ''stsc'', ''stsz'', ''stts'', ''tkhd'']"

definition parse_header ::
  "bool list \<Rightarrow> byte list \<Rightarrow> int \<Rightarrow> (BarFlyMp4Atom \<times> int \<times> size_t) option \<times> bool list" where
  "parse_header m file start_pos =
     (case FileParseAtomSize file start_pos of
        None \<Rightarrow> (None, m)
      | Some (size_l, pos1) \<Rightarrow>
          (case FileParseAtomName file pos1 of
             None \<Rightarrow> (None, m)
           | Some (name, pos2) \<Rightarrow>
               (case AtomOpen m name start_pos of
                  (None, m') \<Rightarrow> (None, m')
                | (Some atom, m') \<Rightarrow>
                    let sized =
                      (if name \<in> set children_names then Some (set_size 8 (set_data None 0 atom))
                       else if name \<in> set parse_names
                         then Some (set_size size_l (set_data None (size_l - 4 - 4) atom))
                       else if name = ''stsd'' then Some (set_size (4 + 4 + 8) (set_data None 8 atom))
                       else if name = ''mp4a'' then Some (set_size (4 + 4 + 28) (set_data None 28 atom))
                       else None)
                    in case sized of
                         None \<Rightarrow> (None, m')
                       | Some a \<Rightarrow>
                           if pos2 + sint (a_data_size a) < 0 then (None, m')
                           else (Some (a, pos2 + sint (a_data_size a), size_l - a_size a), m'))))"

fun FileParseAtom ::
    "nat \<Rightarrow> bool list \<Rightarrow> byte list \<Rightarrow> int \<Rightarrow> (BarFlyMp4Atom option \<times> int \<times> bool list) option"
  and parse_children ::
    "nat \<Rightarrow> bool list \<Rightarrow> byte list \<Rightarrow> int \<Rightarrow> BarFlyMp4Atom \<Rightarrow> size_t \<Rightarrow>
       (BarFlyMp4Atom option \<times> int \<times> bool list) option" where
  "FileParseAtom 0 m file start_pos = None"
| "FileParseAtom (Suc depth) m file start_pos =
     (case parse_header m file start_pos of
        (None, m') \<Rightarrow> Some (None, start_pos, m')
      | (Some (atom, pos, remaining), m') \<Rightarrow>
          (case parse_children depth m' file pos atom remaining of
             None \<Rightarrow> None
           | Some (None, pos', m'') \<Rightarrow> Some (None, start_pos, m'')
           | Some (Some atom', pos', m'') \<Rightarrow> Some (Some atom', pos', m'')))"
| "parse_children 0 m file pos atom remaining = None"
| "parse_children (Suc depth) m file pos atom remaining =
     (if remaining = 0 then Some (Some atom, pos, m)
      else
        (case FileParseAtom depth m file pos of
           None \<Rightarrow> None
         | Some (None, pos', m') \<Rightarrow> Some (None, pos', m')
         | Some (Some child, pos', m') \<Rightarrow>
             if remaining < a_size child then Some (None, pos', m')
             else
               (case AtomAddChild m' [atom] [0] child of
                  (st, as, m'') \<Rightarrow>
                    if st \<noteq> 0 then Some (None, pos', m'')
                    else parse_children depth m'' file pos' (hd as) (remaining - a_size child))))"

section \<open>fly_mp4.c: the tag\<close>

text \<open>\<open>BarFlyMp4Tag\<close>: the top-level atoms and the open MP4 file (its bytes and position).\<close>

record BarFlyMp4Tag =
  file_path :: string
  atoms :: "BarFlyMp4Atom list"
  mp4_file :: "byte list"
  mp4_pos :: int

text \<open>\<open>_BarFlyMp4TagFindAtom\<close>: the path is cut at 255 bytes and split at the dots
  (\<open>strsep\<close>); at each level the first atom with the name is taken. The result is the
  position of the atom.\<close>

primrec split_dots :: "string \<Rightarrow> string list" where
  "split_dots [] = [[]]"
| "split_dots (c # cs) =
     (if c = CHR ''.'' then [] # split_dots cs
      else (c # hd (split_dots cs)) # tl (split_dots cs))"

primrec find_child :: "string \<Rightarrow> BarFlyMp4Atom list \<Rightarrow> nat option" where
  "find_child n [] = None"
| "find_child n (a # as) =
     (if a_name a = n then Some 0 else map_option Suc (find_child n as))"

primrec find_path :: "string list \<Rightarrow> BarFlyMp4Atom list \<Rightarrow> nat list option" where
  "find_path [] as = Some []"
| "find_path (n # ns) as =
     (case find_child n as of
        None \<Rightarrow> None
      | Some i \<Rightarrow> map_option (\<lambda>p. i # p) (find_path ns (a_children (as ! i))))"

definition TagFindAtom :: "BarFlyMp4Tag \<Rightarrow> string \<Rightarrow> nat list option" where
  "TagFindAtom tag path = find_path (split_dots (take (BAR_FLY_NAME_LENGTH - 1) path)) (atoms tag)"

text \<open>\<open>_BarFlyMp4TagUpdateOffsets\<close>: when the \<open>stco\<close> atom is found, its payload is read if
  need be; the entry count is read at byte 4 and the entries after it are each increased by
  the delta. The loop stays inside the buffer only if the buffer holds the count and that
  many entries.\<close>

primrec update_entries :: "nat \<Rightarrow> nat \<Rightarrow> 64 word \<Rightarrow> byte list \<Rightarrow> byte list" where
  "update_entries 0 pos delta buf = buf"
| "update_entries (Suc count) pos delta buf =
     update_entries count (pos + 4) delta
       (take (pos + 4) buf @ LongRender (BufToLong (drop (pos + 4) buf) + delta) @ drop (pos + 8) buf)"

definition TagUpdateOffsets ::
  "bool list \<Rightarrow> BarFlyMp4Tag \<Rightarrow> 64 word \<Rightarrow> (int \<times> BarFlyMp4Tag \<times> bool list) outcome" where
  "TagUpdateOffsets m tag delta =
     (case TagFindAtom tag ''moov.trak.mdia.minf.stbl.stco'' of
        None \<Rightarrow> Returns (0, tag, m)
      | Some stco_atom \<Rightarrow>
          (case lookup_at stco_atom (atoms tag) of
             None \<Rightarrow> AssertionFails
           | Some stco \<Rightarrow>
               obind (FileParseAtomData m (mp4_file tag) (mp4_pos tag) stco) (\<lambda>(st, stco', pos', m').
                 if st \<noteq> 0
                 then Returns (-1, tag\<lparr>mp4_pos := pos'\<rparr>, m')
                 else
                   (case a_data stco' of
                      None \<Rightarrow> Undefined
                    | Some buf \<Rightarrow>
                        if length buf < 8 \<or> length buf < 8 + 4 * unat (BufToLong (drop 4 buf))
                        then Undefined
                        else Returns (0,
                          tag\<lparr>atoms := modify_at stco_atom
                                 (\<lambda>a. set_data
                                    (Some (update_entries (unat (BufToLong (drop 4 buf))) 4 delta buf))
                                    (a_data_size stco') stco')
                                 (atoms tag),
                              mp4_pos := pos'\<rparr>, m')))))"

text \<open>\<open>_BarFlyMp4TagAddAtom\<close>.\<close>

definition TagAddAtom ::
  "bool list \<Rightarrow> BarFlyMp4Tag \<Rightarrow> string \<Rightarrow> BarFlyMp4Atom \<Rightarrow> bool \<Rightarrow>
     (int \<times> BarFlyMp4Tag \<times> bool list) outcome" where
  "TagAddAtom m tag parent_path atom update_offsets =
     (let added =
        (if parent_path = []
         then (if \<not> fst (allocate m) then (-1 :: int, tag, snd (allocate m))
               else (0, tag\<lparr>atoms := atoms tag @ [atom]\<rparr>, snd (allocate m)))
         else (case TagFindAtom tag parent_path of
                 None \<Rightarrow> (-1, tag, m)
               | Some parent \<Rightarrow>
                   (case AtomAddChild m (atoms tag) parent atom of
                      (st, as, m') \<Rightarrow> (if st \<noteq> 0 then -1 else 0, tag\<lparr>atoms := as\<rparr>, m'))))
      in case added of
           (st, tag1, m1) \<Rightarrow>
             if st \<noteq> 0 then Returns (-1, tag1, m1)
             else if update_offsets
             then obind (TagUpdateOffsets m1 tag1 (a_size atom)) (\<lambda>(st2, tag2, m2).
                    Returns (if st2 \<noteq> 0 then -1 else 0, tag2, m2))
             else Returns (0, tag1, m1))"

section \<open>fly_mp4.c: adding metadata\<close>

definition BAR_FLY_MP4_ATOM_META_DATA :: "byte list" where
  "BAR_FLY_MP4_ATOM_META_DATA = [0, 0, 0, 0]"

definition BAR_FLY_MP4_ATOM_HDLR_DATA :: "byte list" where
  "BAR_FLY_MP4_ATOM_HDLR_DATA =
     [0, 0, 0, 0, 0, 0, 0, 0, 0x6D, 0x64, 0x69, 0x72, 0x61, 0x70, 0x70, 0x6C,
      0, 0, 0, 0, 0, 0, 0, 0, 0]"

text \<open>The blocks of \<open>_BarFlyMp4TagAddMetaAtom\<close> that create \<open>udta\<close>, \<open>meta\<close>, \<open>hdlr\<close> and \<open>ilst\<close>.
  Each gives the status with which the function goes on (0) or leaves through its \<open>error\<close>
  label (-1). The status of the attachment of \<open>udta\<close> is assigned and not looked at.\<close>

definition add_udta :: "bool list \<Rightarrow> BarFlyMp4Tag \<Rightarrow> (int \<times> BarFlyMp4Tag \<times> bool list) outcome" where
  "add_udta m tag =
     (if TagFindAtom tag ''moov.udta'' = None
      then (case AtomOpen m ''udta'' (-1) of
              (None, m1) \<Rightarrow> Returns (-1, tag, m1)
            | (Some atom, m1) \<Rightarrow>
                obind (TagAddAtom m1 tag ''moov'' atom True) (\<lambda>(st, tag2, m2).
                  Returns (0, tag2, m2)))
      else Returns (0, tag, m))"

definition add_with_data ::
  "string \<Rightarrow> string \<Rightarrow> byte list \<Rightarrow> bool list \<Rightarrow> BarFlyMp4Tag \<Rightarrow> (int \<times> BarFlyMp4Tag \<times> bool list) outcome" where
  "add_with_data name parent_path bytes m tag =
     (case AtomOpen m name (-1) of
        (None, m1) \<Rightarrow> Returns (-1, tag, m1)
      | (Some atom, m1) \<Rightarrow>
          obind (AtomAppendData m1 [atom] [0] (mp4_file tag) (mp4_pos tag) bytes) (\<lambda>(st, as, pos, m2).
            if st \<noteq> 0 then Returns (-1, tag\<lparr>mp4_pos := pos\<rparr>, m2)
            else obind (TagAddAtom m2 (tag\<lparr>mp4_pos := pos\<rparr>) parent_path (hd as) True)
                   (\<lambda>(st3, tag3, m3). Returns (if st3 \<noteq> 0 then -1 else 0, tag3, m3))))"

definition add_meta :: "bool list \<Rightarrow> BarFlyMp4Tag \<Rightarrow> (int \<times> BarFlyMp4Tag \<times> bool list) outcome" where
  "add_meta m tag =
     (if TagFindAtom tag ''moov.udta.meta'' = None
      then add_with_data ''meta'' ''moov.udta'' BAR_FLY_MP4_ATOM_META_DATA m tag
      else Returns (0, tag, m))"

definition add_hdlr :: "bool list \<Rightarrow> BarFlyMp4Tag \<Rightarrow> (int \<times> BarFlyMp4Tag \<times> bool list) outcome" where
  "add_hdlr m tag =
     (if TagFindAtom tag ''moov.udta.meta.hdlr'' = None
      then add_with_data ''hdlr'' ''moov.udta.meta'' BAR_FLY_MP4_ATOM_HDLR_DATA m tag
      else Returns (0, tag, m))"

definition add_ilst :: "bool list \<Rightarrow> BarFlyMp4Tag \<Rightarrow> (int \<times> BarFlyMp4Tag \<times> bool list) outcome" where
  "add_ilst m tag =
     (case AtomOpen m ''ilst'' (-1) of
        (None, m1) \<Rightarrow> Returns (-1, tag, m1)
      | (Some atom, m1) \<Rightarrow>
          obind (TagAddAtom m1 tag ''moov.udta.meta'' atom True) (\<lambda>(st, tag2, m2).
            Returns (if st \<noteq> 0 then -1 else 0, tag2, m2)))"

definition go_on ::
  "(int \<times> BarFlyMp4Tag \<times> bool list) outcome \<Rightarrow>
   (bool list \<Rightarrow> BarFlyMp4Tag \<Rightarrow> (int \<times> BarFlyMp4Tag \<times> bool list) outcome) \<Rightarrow>
   (int \<times> BarFlyMp4Tag \<times> bool list) outcome" where
  "go_on r step =
     obind r (\<lambda>(st, tag, m). if st \<noteq> 0 then Returns (-1, tag, m) else step m tag)"

definition ensure_ilst :: "bool list \<Rightarrow> BarFlyMp4Tag \<Rightarrow> (int \<times> BarFlyMp4Tag \<times> bool list) outcome" where
  "ensure_ilst m tag =
     (if TagFindAtom tag ''moov.udta.meta.ilst'' = None
      then go_on (go_on (go_on (add_udta m tag) add_meta) add_hdlr) add_ilst
      else Returns (0, tag, m))"

text \<open>The metadata atom: an atom with the given name whose only child is a \<open>data\<close> atom with
  the class, four zero bytes and the value. The status is 0 with the atom, or -1.\<close>

definition append_alone ::
  "bool list \<Rightarrow> BarFlyMp4Atom \<Rightarrow> byte list \<Rightarrow> int \<Rightarrow> byte list \<Rightarrow>
     (int \<times> BarFlyMp4Atom \<times> int \<times> bool list) outcome" where
  "append_alone m atom file pos bytes =
     obind (AtomAppendData m [atom] [0] file pos bytes) (\<lambda>(st, as, pos', m').
       Returns (st, hd as, pos', m'))"

definition build_meta_atom ::
  "bool list \<Rightarrow> BarFlyMp4Tag \<Rightarrow> string \<Rightarrow> byte list \<Rightarrow> byte list \<Rightarrow>
     (BarFlyMp4Atom option \<times> int \<times> bool list) outcome" where
  "build_meta_atom m tag name class bytes =
     (case AtomOpen m name (-1) of
        (None, m1) \<Rightarrow> Returns (None, mp4_pos tag, m1)
      | (Some meta_atom, m1) \<Rightarrow>
          (case AtomOpen m1 ''data'' (-1) of
             (None, m2) \<Rightarrow> Returns (None, mp4_pos tag, m2)
           | (Some data_atom, m2) \<Rightarrow>
               obind (append_alone m2 data_atom (mp4_file tag) (mp4_pos tag) (take 4 class))
                 (\<lambda>(st3, d3, pos3, m3).
               if st3 \<noteq> 0 then Returns (None, pos3, m3)
               else obind (append_alone m3 d3 (mp4_file tag) pos3 [0, 0, 0, 0])
                 (\<lambda>(st4, d4, pos4, m4).
               if st4 \<noteq> 0 then Returns (None, pos4, m4)
               else obind (append_alone m4 d4 (mp4_file tag) pos4 bytes)
                 (\<lambda>(st5, d5, pos5, m5).
               if st5 \<noteq> 0 then Returns (None, pos5, m5)
               else (case AtomAddChild m5 [meta_atom] [0] d5 of
                       (st6, as, m6) \<Rightarrow>
                         if st6 \<noteq> 0 then Returns (None, pos5, m6)
                         else Returns (Some (hd as), pos5, m6)))))))"

text \<open>\<open>_BarFlyMp4TagAddMetaAtom\<close>. After the metadata atom is built, the status of its
  attachment under \<open>moov.udta.meta.ilst\<close> is assigned and not looked at.\<close>

definition TagAddMetaAtom ::
  "bool list \<Rightarrow> BarFlyMp4Tag \<Rightarrow> string \<Rightarrow> byte list \<Rightarrow> byte list \<Rightarrow>
     (int \<times> BarFlyMp4Tag \<times> bool list) outcome" where
  "TagAddMetaAtom m tag name class bytes =
     obind (ensure_ilst m tag) (\<lambda>(st, tag1, m1).
       if st \<noteq> 0 then Returns (-1, tag1, m1)
       else obind (build_meta_atom m1 tag1 name class bytes) (\<lambda>(built, pos, m2).
         case built of
           None \<Rightarrow> Returns (-1, tag1\<lparr>mp4_pos := pos\<rparr>, m2)
         | Some meta_atom \<Rightarrow>
             obind (TagAddAtom m2 (tag1\<lparr>mp4_pos := pos\<rparr>) ''moov.udta.meta.ilst'' meta_atom True)
               (\<lambda>(st3, tag3, m3). Returns (0, tag3, m3))))"

definition string_bytes :: "string \<Rightarrow> byte list" where
  "string_bytes s = map (\<lambda>c. of_nat (of_char c)) s"


text \<open>\<open>BarFlyMp4TagOpen\<close>: the file must begin with an \<open>ftyp\<close> atom followed by the \<open>moov\<close>
  atom, which becomes the only top-level atom of the tag. \<open>None\<close> for the file is a file
  that cannot be opened.\<close>

definition BarFlyMp4TagOpen ::
  "nat \<Rightarrow> bool list \<Rightarrow> string \<Rightarrow> byte list option \<Rightarrow> (BarFlyMp4Tag option \<times> bool list) option" where
  "BarFlyMp4TagOpen depth m path opened =
     (if \<not> fst (allocate m) then Some (None, snd (allocate m))
      else if \<not> fst (allocate (snd (allocate m))) then Some (None, snd (allocate (snd (allocate m))))
      else
        let m2 = snd (allocate (snd (allocate m)))
        in case opened of
             None \<Rightarrow> Some (None, m2)
           | Some file \<Rightarrow>
               (case FileParseAtomSize file 0 of
                  None \<Rightarrow> Some (None, m2)
                | Some (sz, pos1) \<Rightarrow>
                    (case FileParseAtomName file pos1 of
                       None \<Rightarrow> Some (None, m2)
                     | Some (name, pos2) \<Rightarrow>
                         if name \<noteq> ''ftyp'' \<or> pos2 + sint (sz - 4 - 4) < 0 then Some (None, m2)
                         else
                           (case FileParseAtom depth m2 file (pos2 + sint (sz - 4 - 4)) of
                              None \<Rightarrow> None
                            | Some (None, pos3, m3) \<Rightarrow> Some (None, m3)
                            | Some (Some atom, pos3, m3) \<Rightarrow>
                                if a_name atom \<noteq> ''moov'' \<or> \<not> fst (allocate m3)
                                then Some (None, if a_name atom \<noteq> ''moov'' then m3 else snd (allocate m3))
                                else Some (Some \<lparr>file_path = path, atoms = [atom], mp4_file = file,
                                             mp4_pos = pos3\<rparr>, snd (allocate m3))))))"

text \<open>An entry of a chunk offset table: the 32 bits that four bytes hold, big-endian.\<close>

definition be32 :: "byte list \<Rightarrow> 32 word" where
  "be32 bs = ucast (BufToLong bs)"

text \<open>The atoms on a path, each with its size increased: what \<open>AtomBumpSize\<close> does to an
  atom and its parent chain, written from the top.\<close>

primrec bump_chain :: "nat list \<Rightarrow> size_t \<Rightarrow> BarFlyMp4Atom list \<Rightarrow> BarFlyMp4Atom list" where
  "bump_chain [] d as = as"
| "bump_chain (i # p) d as =
     (if i < length as
      then as[i := set_size (a_size (as ! i) + d)
                     (set_children (bump_chain p d (a_children (as ! i))) (as ! i))]
      else as)"


text \<open>The sizes recorded on the path to an atom, from the top-level atom down to the atom
  itself: the sizes of the atom's parent chain and its own.\<close>

primrec chain_sizes :: "nat list \<Rightarrow> BarFlyMp4Atom list \<Rightarrow> size_t list" where
  "chain_sizes [] as = []"
| "chain_sizes (i # p) as =
     (if i < length as then a_size (as ! i) # chain_sizes p (a_children (as ! i)) else [])"

text \<open>An example file: \<open>ftyp\<close>, then \<open>moov\<close> with one track whose chunk offset table has the
  entries 500 and 900, then the media data. \<open>tag0\<close> is the tag that \<open>BarFlyMp4TagOpen\<close> builds
  from it and \<open>tag_artist\<close> the tag after the artist \<open>A\<close> was added.\<close>

definition file0 :: "byte list" where
  "file0 = [0, 0, 0, 0x10] @ string_bytes ''ftyp'' @ [1, 2, 3, 4, 5, 6, 7, 8] @
     [0, 0, 0, 0x40] @ string_bytes ''moov'' @
     [0, 0, 0, 0x38] @ string_bytes ''trak'' @
     [0, 0, 0, 0x30] @ string_bytes ''mdia'' @
     [0, 0, 0, 0x28] @ string_bytes ''minf'' @
     [0, 0, 0, 0x20] @ string_bytes ''stbl'' @
     [0, 0, 0, 0x18] @ string_bytes ''stco'' @
       [0, 0, 0, 0, 0, 0, 0, 2, 0, 0, 1, 0xF4, 0, 0, 3, 0x84] @
     [0, 0, 0, 0x0C] @ string_bytes ''mdat'' @ [9, 9, 9, 9]"

definition stco0 :: "byte list option \<Rightarrow> BarFlyMp4Atom" where
  "stco0 d = Atom ''stco'' 24 [] d 16 56"

definition trak0 :: "byte list option \<Rightarrow> BarFlyMp4Atom" where
  "trak0 stco_data =
     Atom ''trak'' 56
       [Atom ''mdia'' 48
          [Atom ''minf'' 40
             [Atom ''stbl'' 32 [stco0 stco_data] None 0 48]
             None 0 40]
          None 0 32]
       None 0 24"

definition tag0 :: BarFlyMp4Tag where
  "tag0 = \<lparr>file_path = ''x.m4a'', atoms = [Atom ''moov'' 64 [trak0 None] None 0 16],
     mp4_file = file0, mp4_pos = 80\<rparr>"




section \<open>Properties of the path builder\<close>

lemmas world_eval = alloc_def world0_def is_file_def is_dir_def is_slash_def dir_prefixes_def
  upt_rec nth_Cons' inside_def enter_def parent_of_def strip_slashes_def last_name_def
  trailing_slash_def resolve_def mkdir_def rmdir_def unlink_def
  BarFlyFileOpenStream_def fclose_def fwrite_def append_file_def new_string_def free_def
  free_if_set_def obind_def Let_def

lemmas recorder_eval = BarFlyOpen_def open_metadata_def regex_title_def regex_meta_def output_fly_init_def BarFlyFileOpen_def
  BarFlyFileDelete_def BarFlyClose_def BarFlyTag_def BarFlyWrite_def BAR_FLY_NAME_LENGTH_def
  BarFlyFileGetPath_def extension_of_def is_dash_char_def is_skip_char_def path_fill.simps
  substitute_def not_percent_def

lemmas example_eval = scraper_offline_def song0_def settings0_def fly_blank_def fly_recording_def
  world_recording_def

lemmas path_eval = BarFlyFileGetPath_def BAR_FLY_NAME_LENGTH_def extension_of_def alloc_def world0_def Let_def
  is_dash_char_def is_skip_char_def path_fill.simps substitute_def not_percent_def

lemma BarFlyNameTranslate_plain:
  "BarFlyNameTranslate (replicate k CHR ''a'') n settings = replicate k CHR ''a''"
  by (induction k) (simp_all add: is_dash_char_def is_skip_char_def)

lemma BarFlyNameTranslate_audioFileName [simp]:
  "BarFlyNameTranslate src n (settings\<lparr>audioFileName := pat\<rparr>) = BarFlyNameTranslate src n settings"
  by (induction src) simp_all

lemma substitute_other: "\<not> begins_token p \<Longrightarrow> substitute a b c y t d p = ([], 1)"
  by (simp add: begins_token_def substitute_def)

lemma path_fill_percent:
  assumes "\<not> begins_token (CHR ''%'' # rest)"
  shows "path_fill a b c y t d (CHR ''%'' # rest) = path_fill a b c y t d rest"
  using substitute_other [OF assms, of a b c y t d]
  by (subst path_fill.simps) (simp add: not_percent_def)

lemma path_fill_literal:
  assumes "\<forall>x\<in>set lit. x \<noteq> CHR ''%''"
  shows "path_fill a b c y t d (lit @ p) = lit @ path_fill a b c y t d p"
proof (cases "lit = []")
  case True
  then show ?thesis by simp
next
  case False
  have tw: "takeWhile not_percent (lit @ p) = lit @ takeWhile not_percent p"
    using assms by (simp add: not_percent_def)
  have dw: "dropWhile not_percent (lit @ p) = dropWhile not_percent p"
    using assms by (simp add: not_percent_def)
  show ?thesis
  proof (cases "p = []")
    case True
    then show ?thesis
      using False tw dw by (subst path_fill.simps, subst (2) path_fill.simps) simp
  next
    case False
    then show ?thesis
      using \<open>lit \<noteq> []\<close> tw dw
      by (subst path_fill.simps, subst (2) path_fill.simps) (simp add: Let_def)
  qed
qed

text \<open>C4, as stated, at the template \<open>a%xb\<close>: the claim predicts that \<open>%\<close> and \<open>x\<close> are both
  dropped (\<open>ab.mp3\<close>); the code keeps the \<open>x\<close>.\<close>

theorem other_percent_counterexample:
  "BarFlyFileGetPath world0 ''A'' ''B'' ''C'' 0 0 0 PIANO_AF_MP3
     \<lparr>audioFileName = ''a%xb'', useSpaces = False, embedCover = False\<rparr> =
     Returns (Some ''axb.mp3'', world0) \<and>
   BarFlyFileGetPath world0 ''A'' ''B'' ''C'' 0 0 0 PIANO_AF_MP3
     \<lparr>audioFileName = ''a%xb'', useSpaces = False, embedCover = False\<rparr> \<noteq>
     Returns (Some ''ab.mp3'', world0)"
  by (simp add: path_eval)

text \<open>C4, amended: a \<open>%\<close> that begins none of the six tokens is dropped alone. When the
  fill loop stands at such a \<open>%\<close> it continues with the very next character of the template,
  and the path built from a template whose literal text \<open>lit\<close> is followed by such a \<open>%\<close> is
  the path built from the template with only that \<open>%\<close> deleted.\<close>

theorem other_percent_dropped_alone:
  assumes "\<not> begins_token (CHR ''%'' # rest)" and "\<forall>x\<in>set lit. x \<noteq> CHR ''%''"
  shows "path_fill a b c y t d (CHR ''%'' # rest) = path_fill a b c y t d rest \<and>
    BarFlyFileGetPath w a1 b1 c1 y t d fmt (settings\<lparr>audioFileName := lit @ CHR ''%'' # rest\<rparr>) =
    BarFlyFileGetPath w a1 b1 c1 y t d fmt (settings\<lparr>audioFileName := lit @ rest\<rparr>)"
proof -
  have "path_fill a' b' c' y t d (lit @ CHR ''%'' # rest) = path_fill a' b' c' y t d (lit @ rest)"
    for a' b' c'
    using path_fill_literal [OF assms(2)] path_fill_percent [OF assms(1)] by simp
  then show ?thesis
    using path_fill_percent [OF assms(1)] by (simp add: BarFlyFileGetPath_def Let_def split: option.split)
qed

theorem other_percent_dropped_alone_witness:
  "path_fill ''A'' ''B'' ''C'' 0 0 0 ''%xb%title'' = ''xbC'' \<and>
   BarFlyFileGetPath world0 ''A'' ''B'' ''C'' 0 0 0 PIANO_AF_MP3
     \<lparr>audioFileName = ''a%xb%title'', useSpaces = False, embedCover = False\<rparr> =
     Returns (Some ''axbC.mp3'', world0)"
proof -
  have n: "\<not> begins_token (CHR ''%'' # ''xb%title'')"
    by (simp add: begins_token_def)
  have l: "\<forall>x\<in>set ''a''. x \<noteq> CHR ''%''"
    by simp
  have r: "path_fill ''A'' ''B'' ''C'' 0 0 0 ''xb%title'' = ''xbC''"
    by (simp add: path_eval)
  have g: "BarFlyFileGetPath world0 ''A'' ''B'' ''C'' 0 0 0 PIANO_AF_MP3
     \<lparr>audioFileName = ''axb%title'', useSpaces = False, embedCover = False\<rparr> =
     Returns (Some ''axbC.mp3'', world0)"
    by (simp add: path_eval)
  show ?thesis
    using other_percent_dropped_alone [OF n l, of "''A''" "''B''" "''C''" 0 0 0 world0 "''A''" "''B''" "''C''"
        PIANO_AF_MP3 "\<lparr>audioFileName = [], useSpaces = False, embedCover = False\<rparr>"] r g
    by simp
qed

text \<open>C5: the name translation is documented to copy at most \<open>n\<close> bytes into a buffer of
  \<open>BAR_FLY_NAME_LENGTH\<close> bytes, but the loop never reads \<open>n\<close>: a source of 256 bytes yields
  256 bytes (and the terminating NUL after them), one more than the 255 the buffer can hold
  before its terminator.\<close>

theorem BarFlyNameTranslate_exceeds_buffer:
  "length (BarFlyNameTranslate (replicate 256 CHR ''a'') BAR_FLY_NAME_LENGTH settings) = 256"
  by (simp add: BarFlyNameTranslate_plain)

section \<open>Properties of the recorder\<close>

lemma alloc_frame [simp]:
  "strings (snd (alloc w)) = strings w" "next_id (snd (alloc w)) = next_id w"
  "streams (snd (alloc w)) = streams w" "fs_files (snd (alloc w)) = fs_files w"
  "fs_dirs (snd (alloc w)) = fs_dirs w" "room (snd (alloc w)) = room w"
  by (simp_all add: alloc_def split: list.split)

lemma alloc_all_succeed: "allocs w = [] \<Longrightarrow> alloc w = (True, w)"
  by (simp add: alloc_def)

lemma alloc_allocs: "allocs w = [] \<Longrightarrow> allocs (snd (alloc w)) = []"
  by (simp add: alloc_def)

lemma map_of_filter_fst:
  "map_of (filter (\<lambda>s. fst s \<noteq> k) xs) a = (if a = k then None else map_of xs a)"
  by (induction xs) auto

subsection \<open>Paths with ordinary names\<close>

lemma split_slashes_not_Nil [simp]: "split_slashes p \<noteq> []"
  by (induction p) simp_all

lemma split_slashes_append:
  "split_slashes (a @ CHR ''/'' # b) = split_slashes a @ split_slashes b"
  by (induction a) (simp_all add: is_slash_def)

lemma split_slashes_plain: "CHR ''/'' \<notin> set c \<Longrightarrow> split_slashes c = [c]"
  by (induction c) (auto simp: is_slash_def)

lemma mem_dir_prefixes:
  "x \<in> set (dir_prefixes d) \<longleftrightarrow> (\<exists>i<length d. is_slash (d ! i) \<and> x = take i d)"
  by (auto simp: dir_prefixes_def)

lemma dir_prefixes_at_slash:
  "a \<in> set (dir_prefixes (a @ CHR ''/'' # c))"
  "set (dir_prefixes a) \<subseteq> set (dir_prefixes (a @ CHR ''/'' # c))"
proof -
  show "a \<in> set (dir_prefixes (a @ CHR ''/'' # c))"
    unfolding mem_dir_prefixes by (rule exI [of _ "length a"]) (simp add: is_slash_def)
  show "set (dir_prefixes a) \<subseteq> set (dir_prefixes (a @ CHR ''/'' # c))"
  proof
    fix x assume "x \<in> set (dir_prefixes a)"
    then obtain i where "i < length a" "is_slash (a ! i)" "x = take i a"
      unfolding mem_dir_prefixes by blast
    then show "x \<in> set (dir_prefixes (a @ CHR ''/'' # c))"
      unfolding mem_dir_prefixes by (intro exI [of _ i]) (simp add: nth_append)
  qed
qed

lemma clean_at_slash:
  "clean (a @ CHR ''/'' # c) \<longleftrightarrow> clean a \<and> clean c"
  by (simp add: clean_def split_slashes_append)

lemma clean_not_Nil: "clean a \<Longrightarrow> a \<noteq> []"
  by (auto simp: clean_def)

lemma clean_plain:
  "CHR ''/'' \<notin> set c \<Longrightarrow> clean c \<longleftrightarrow> c \<noteq> [] \<and> c \<noteq> ''.'' \<and> c \<noteq> ''..''"
  by (simp add: clean_def split_slashes_plain)

lemma walk_append:
  "walk w cur (xs @ ys) = (case walk w cur xs of Inl e \<Rightarrow> Inl e | Inr n \<Rightarrow> walk w n ys)"
  by (induction xs arbitrary: cur) simp_all

lemma walk_clean:
  "clean a \<Longrightarrow> (\<forall>x\<in>set (dir_prefixes a). is_dir w x) \<Longrightarrow> is_dir w a \<Longrightarrow>
     walk w [] (split_slashes a) = Inr a"
proof (induction a rule: length_induct)
  case (1 a)
  show ?case
  proof (cases "CHR ''/'' \<in> set a")
    case False
    then show ?thesis
      using "1.prems"(1,3) by (simp add: split_slashes_plain clean_plain enter_def)
  next
    case True
    then obtain ys zs where a: "a = ys @ CHR ''/'' # zs" "CHR ''/'' \<notin> set zs"
      using split_list_last [of "CHR ''/''" a] by blast
    have cl: "clean ys" "clean zs"
      using "1.prems"(1) a(1) by (simp_all add: clean_at_slash)
    have dirs: "\<forall>x\<in>set (dir_prefixes ys). is_dir w x" "is_dir w ys"
      using "1.prems"(2) dir_prefixes_at_slash [of ys zs] a(1) by auto
    have "walk w [] (split_slashes ys) = Inr ys"
      using "1.IH" cl(1) dirs a(1) by simp
    moreover have "enter ys zs = a"
      using clean_not_Nil [OF cl(1)] a(1) by (simp add: enter_def)
    ultimately show ?thesis
      using a cl(2) "1.prems"(3)
      by (simp add: split_slashes_append split_slashes_plain walk_append clean_plain)
  qed
qed

lemma last_split_slash: "p \<noteq> [] \<Longrightarrow> is_slash (last p) \<Longrightarrow> last (split_slashes p) = []"
proof -
  assume "p \<noteq> []" "is_slash (last p)"
  then have "p = butlast p @ CHR ''/'' # []"
    by (metis append_butlast_last_id is_slash_def)
  then have "split_slashes p = split_slashes (butlast p) @ [[]]"
    using split_slashes_append [of "butlast p" "[]"] by simp
  then show ?thesis by simp
qed

lemma clean_facts:
  assumes "clean d"
  shows "d \<noteq> []" "\<not> trailing_slash d" "strip_slashes d = d" "last_name d = last (split_slashes d)"
    "last_name d \<noteq> []" "last_name d \<noteq> ''.''" "last_name d \<noteq> ''..''"
proof -
  show d: "d \<noteq> []" using assms by (rule clean_not_Nil)
  have l: "last (split_slashes d) \<noteq> [] \<and> last (split_slashes d) \<noteq> ''.'' \<and>
      last (split_slashes d) \<noteq> ''..''"
    using assms last_in_set [of "split_slashes d"] by (auto simp: clean_def list_all_iff)
  then show t: "\<not> trailing_slash d"
    using last_split_slash [of d] by (auto simp: trailing_slash_def)
  then have "\<not> is_slash (last d)" using d by (simp add: trailing_slash_def)
  then have "dropWhile is_slash (rev d) = rev d"
    using d by (cases "rev d") (auto simp: last_rev hd_rev)
  then show s: "strip_slashes d = d" by (simp add: strip_slashes_def)
  then show "last_name d = last (split_slashes d)" by (simp add: last_name_def)
  then show "last_name d \<noteq> []" "last_name d \<noteq> ''.''" "last_name d \<noteq> ''..''"
    using l by simp_all
qed

lemma resolve_clean:
  assumes "clean d" and "\<forall>x\<in>set (dir_prefixes d). is_dir w x"
  shows "resolve w d = Inr d"
proof (cases "CHR ''/'' \<in> set d")
  case False
  then show ?thesis
    using clean_facts [OF assms(1)]
    by (simp add: resolve_def split_slashes_plain enter_def)
next
  case True
  then obtain ys zs where a: "d = ys @ CHR ''/'' # zs" "CHR ''/'' \<notin> set zs"
    using split_list_last [of "CHR ''/''" d] by blast
  have cl: "clean ys" "clean zs"
    using assms(1) a(1) by (simp_all add: clean_at_slash)
  have "walk w [] (split_slashes ys) = Inr ys"
    using walk_clean [OF cl(1)] assms(2) dir_prefixes_at_slash [of ys zs] a(1) by auto
  moreover have "enter ys zs = d"
    using clean_not_Nil [OF cl(1)] a(1) by (simp add: enter_def)
  moreover have "split_slashes d = split_slashes ys @ [zs]"
    using a by (simp add: split_slashes_append split_slashes_plain)
  ultimately show ?thesis
    using clean_facts [OF assms(1)] by (simp add: resolve_def)
qed

lemma dir_prefix_clean:
  assumes "clean p" and "d \<in> set (dir_prefixes p)"
  shows "clean d" "set (dir_prefixes d) \<subseteq> set (dir_prefixes p)" "length d < length p"
proof -
  obtain i where i: "i < length p" "is_slash (p ! i)" "d = take i p"
    using assms(2) unfolding mem_dir_prefixes by blast
  then have p: "p = d @ CHR ''/'' # drop (Suc i) p"
    using id_take_nth_drop [of i p] by (simp add: is_slash_def)
  show "clean d"
    using assms(1) clean_at_slash [of d "drop (Suc i) p"] p by simp
  show "set (dir_prefixes d) \<subseteq> set (dir_prefixes p)"
    using dir_prefixes_at_slash(2) [of d "drop (Suc i) p"] p by simp
  show "length d < length p"
    using i by simp
qed


lemma dir_prefixes_sorted: "sorted_wrt (\<lambda>x y. length x < length y) (dir_prefixes path)"
proof -
  have "sorted_wrt (\<lambda>i j. i < j) (filter (\<lambda>i. is_slash (path ! i)) [0..<length path])"
    by (intro sorted_wrt_filter) (simp add: sorted_wrt_upt)
  then have "sorted_wrt (\<lambda>i j. length (take i path) < length (take j path))
      (filter (\<lambda>i. is_slash (path ! i)) [0..<length path])"
    by (rule sorted_wrt_mono_rel [rotated]) auto
  then show ?thesis
    by (simp add: dir_prefixes_def sorted_wrt_map)
qed

lemma rev_dir_prefixes_sorted: "sorted_wrt (\<lambda>x y. length y < length x) (rev (dir_prefixes path))"
  using dir_prefixes_sorted [of path] by (simp add: sorted_wrt_rev)

lemma inside_longer: "inside d e \<Longrightarrow> length d < length e"
proof -
  assume "inside d e"
  then have "length (take (Suc (length d)) e) = Suc (length d)"
    by (simp add: inside_def)
  then show ?thesis by simp
qed


subsection \<open>System calls\<close>








lemma rmdir_clean:
  assumes "clean d" and "\<forall>x\<in>set (dir_prefixes d). is_dir w x"
  shows "rmdir w d =
     (if is_file w d then Inl ENOTDIR
      else if \<not> is_dir w d then Inl ENOENT
      else if \<exists>e\<in>set (map fst (fs_files w) @ fs_dirs w). inside d e then Inl ENOTEMPTY
      else Inr (w\<lparr>fs_dirs := removeAll d (fs_dirs w)\<rparr>))"
  using resolve_clean [OF assms] clean_facts [OF assms(1)] by (simp add: rmdir_def)

lemma unlink_clean:
  assumes "clean p" and "\<forall>x\<in>set (dir_prefixes p). is_dir w x" and "is_file w p"
  shows "unlink w p = Inr (w\<lparr>fs_files := filter (\<lambda>x. fst x \<noteq> p) (fs_files w)\<rparr>)"
  using resolve_clean [OF assms(1,2)] clean_facts [OF assms(1)] assms(3) by (simp add: unlink_def)










subsection \<open>Opening a recording\<close>
















text \<open>C6: \<open>fly.h\<close> documents that \<open>BarFlyTag\<close> closes the file stream before the tag is
  written. The code does not: on a recorder that is not completed, \<open>_BarFlyTagWrite\<close> is
  called in the world as it was, with the status already \<open>TAGGING\<close> and \<open>audio_file\<close> still the
  open stream, and the structure is returned in that state.\<close>

theorem BarFlyTag_keeps_stream_open:
  assumes "\<not> completed fly" and "audio_file fly = Some h" and "map_of (streams w) h = Some p"
  shows "\<exists>fly1. fly1 = fly\<lparr>status := TAGGING\<rparr> \<and> audio_file fly1 = Some h \<and>
    BarFlyTag tag_write w fly settings =
      Returns (if fst (tag_write w fly1 settings) \<noteq> 0 then -1 else 0,
        fly1\<lparr>completed := True\<rparr>, snd (tag_write w fly1 settings)) \<and>
    status (fly1\<lparr>completed := True\<rparr>) = TAGGING \<and>
    audio_file (fly1\<lparr>completed := True\<rparr>) = Some h \<and>
    map_of (streams w) h = Some p"
  using assms by (simp add: BarFlyTag_def Let_def)

theorem BarFlyTag_keeps_stream_open_witness:
  "\<exists>fly'. BarFlyTag (\<lambda>w fly settings. (0, w)) world_recording fly_recording settings0 =
      Returns (0, fly', world_recording) \<and>
    status fly' = TAGGING \<and> audio_file fly' = Some 1 \<and>
    map_of (streams world_recording) 1 = Some ''A/C.mp3''"
proof -
  have a: "\<not> completed fly_recording" "audio_file fly_recording = Some 1"
    by (simp_all add: fly_recording_def)
  have s: "map_of (streams world_recording) 1 = Some ''A/C.mp3''"
    by (simp add: world_recording_def)
  show ?thesis
    using BarFlyTag_keeps_stream_open [OF a s, of "\<lambda>w fly settings. (0, w)" settings0]
    by simp
qed


section \<open>Abort cleanup\<close>

lemma remove_parents_ok:
  assumes "\<forall>d\<in>set ds. clean d \<and> is_dir w d \<and> \<not> is_file w d \<and>
      (\<forall>x\<in>set (dir_prefixes d). x \<in> set ds)"
    and "sorted_wrt (\<lambda>x y. length y < length x) ds"
    and "\<forall>d\<in>set ds. \<forall>x\<in>set (dir_prefixes d). length x < length d"
  shows "\<exists>w'. remove_parents w ds = (0, w') \<and> fs_files w' = fs_files w \<and>
    streams w' = streams w \<and> strings w' = strings w \<and>
    set (fs_dirs w') \<subseteq> set (fs_dirs w) \<and> set (fs_dirs w) - set (fs_dirs w') \<subseteq> set ds \<and>
    (\<forall>d\<in>set ds. is_dir w' d \<longrightarrow> (\<exists>e\<in>set (map fst (fs_files w') @ fs_dirs w'). inside d e))"
  using assms
proof (induction ds arbitrary: w)
  case Nil
  show ?case by simp
next
  case (Cons d ds)
  have d: "clean d" "is_dir w d" "\<not> is_file w d"
    using Cons.prems(1) by simp_all
  have dne: "d \<noteq> []"
    using d(1) by (rule clean_not_Nil)
  have shorter: "\<forall>x\<in>set ds. length x < length d"
    using Cons.prems(2) by simp
  have sorted: "sorted_wrt (\<lambda>x y. length y < length x) ds"
    using Cons.prems(2) by simp
  have lens: "\<forall>e\<in>set ds. \<forall>x\<in>set (dir_prefixes e). length x < length e"
    using Cons.prems(3) by simp
  have anc: "\<forall>x\<in>set (dir_prefixes d). is_dir w x"
    using Cons.prems(1) by auto
  have closed: "\<forall>e\<in>set ds. \<forall>x\<in>set (dir_prefixes e). x \<in> set ds"
  proof (intro ballI)
    fix e x assume e: "e \<in> set ds" and x: "x \<in> set (dir_prefixes e)"
    have "length x < length e" using lens e x by blast
    then have "x \<noteq> d" using shorter e by auto
    moreover have "x \<in> set (d # ds)" using Cons.prems(1) e x by auto
    ultimately show "x \<in> set ds" by simp
  qed
  note rd = rmdir_clean [OF d(1) anc]
  show ?case
  proof (cases "\<exists>e\<in>set (map fst (fs_files w) @ fs_dirs w). inside d e")
    case True
    then obtain e where e: "e \<in> set (map fst (fs_files w) @ fs_dirs w)" "inside d e"
      by blast
    have rd': "rmdir w d = Inl ENOTEMPTY"
      using d True rd by simp
    have "\<forall>e\<in>set ds. clean e \<and> is_dir w e \<and> \<not> is_file w e \<and>
        (\<forall>x\<in>set (dir_prefixes e). x \<in> set ds)"
      using Cons.prems(1) closed by simp
    then obtain w' where w': "remove_parents w ds = (0, w')" "fs_files w' = fs_files w"
      "streams w' = streams w" "strings w' = strings w"
      "set (fs_dirs w') \<subseteq> set (fs_dirs w)" "set (fs_dirs w) - set (fs_dirs w') \<subseteq> set ds"
      "\<forall>d\<in>set ds. is_dir w' d \<longrightarrow> (\<exists>e\<in>set (map fst (fs_files w') @ fs_dirs w'). inside d e)"
      using Cons.IH [of w] sorted lens by blast
    have "e \<notin> set ds"
      using shorter inside_longer [OF e(2)] by auto
    then have "e \<in> set (map fst (fs_files w') @ fs_dirs w')"
      using e(1) w'(2,6) by auto
    then have "\<exists>e\<in>set (map fst (fs_files w') @ fs_dirs w'). inside d e"
      using e(2) by blast
    then show ?thesis
      using rd' w' by auto
  next
    case False
    define w1 where "w1 = w\<lparr>fs_dirs := removeAll d (fs_dirs w)\<rparr>"
    have rd': "rmdir w d = Inr w1"
      using d False rd by (simp add: w1_def)
    have "d \<notin> set ds"
      using shorter by auto
    then have "\<forall>x\<in>set ds. clean x \<and> is_dir w1 x \<and> \<not> is_file w1 x \<and>
        (\<forall>y\<in>set (dir_prefixes x). y \<in> set ds)"
      using Cons.prems(1) closed by (auto simp: w1_def is_dir_def is_file_def)
    then obtain w' where w': "remove_parents w1 ds = (0, w')" "fs_files w' = fs_files w1"
      "streams w' = streams w1" "strings w' = strings w1"
      "set (fs_dirs w') \<subseteq> set (fs_dirs w1)" "set (fs_dirs w1) - set (fs_dirs w') \<subseteq> set ds"
      "\<forall>d\<in>set ds. is_dir w' d \<longrightarrow> (\<exists>e\<in>set (map fst (fs_files w') @ fs_dirs w'). inside d e)"
      using Cons.IH [of w1] sorted lens by blast
    have "\<not> is_dir w' d"
      using w'(5) dne by (auto simp: w1_def is_dir_def)
    then show ?thesis
      using rd' w' by (auto simp: w1_def)
  qed
qed

lemma abort_close_recording:
  assumes nc: "\<not> completed fly"
    and fl: "audio_file fly = Some h" "map_of (streams w) h = Some q"
    and pth: "audio_file_path fly = Some a" "map_of (strings w) a = Some path"
    and cover: "cover_art_url fly = None \<or>
      (\<exists>c url. cover_art_url fly = Some c \<and> c \<noteq> a \<and> map_of (strings w) c = Some url)"
    and cl: "clean path"
    and fs: "is_file w path" "\<forall>d\<in>set (dir_prefixes path). is_dir w d \<and> \<not> is_file w d"
    and mem: "allocs w = []"
  shows "\<exists>w'. BarFlyClose w (Some fly) = Returns (0, Some (fly\<lparr>status := DELETING\<rparr>), w') \<and>
    map_of (streams w') h = None \<and>
    fs_files w' = filter (\<lambda>f. fst f \<noteq> path) (fs_files w) \<and>
    set (fs_dirs w') \<subseteq> set (fs_dirs w) \<and>
    set (fs_dirs w) - set (fs_dirs w') \<subseteq> set (dir_prefixes path) \<and>
    (\<forall>d\<in>set (dir_prefixes path).
       is_dir w' d \<longrightarrow> (\<exists>e\<in>set (map fst (fs_files w') @ fs_dirs w'). inside d e)) \<and>
    BarFlyClose w' (Some (fly\<lparr>status := DELETING\<rparr>)) = Undefined"
proof -
  define w1 where "w1 = w\<lparr>streams := filter (\<lambda>s. fst s \<noteq> h) (streams w)\<rparr>"
  define w2 where "w2 = w1\<lparr>fs_files := filter (\<lambda>f. fst f \<noteq> path) (fs_files w1)\<rparr>"
  have c1: "fclose w h = Returns w1"
    using fl(2) by (simp add: fclose_def w1_def)
  have "\<forall>x\<in>set (dir_prefixes path). is_dir w1 x" "is_file w1 path"
    using fs by (simp_all add: w1_def is_dir_def is_file_def)
  then have u: "unlink w1 path = Inr w2"
    using unlink_clean [OF cl, of w1] by (simp add: w2_def)
  have al: "alloc w2 = (True, w2)"
    using mem by (intro alloc_all_succeed) (simp add: w2_def w1_def)
  have "\<forall>d\<in>set (rev (dir_prefixes path)). clean d \<and> is_dir w2 d \<and> \<not> is_file w2 d \<and>
      (\<forall>x\<in>set (dir_prefixes d). x \<in> set (rev (dir_prefixes path)))"
    using fs(2) dir_prefix_clean(1,2) [OF cl]
    by (auto simp: w2_def w1_def is_dir_def is_file_def map_of_filter_fst)
  moreover have "\<forall>d\<in>set (rev (dir_prefixes path)). \<forall>x\<in>set (dir_prefixes d). length x < length d"
    using dir_prefix_clean(1,3) [OF cl] dir_prefix_clean(3) by auto
  ultimately obtain w3 where w3: "remove_parents w2 (rev (dir_prefixes path)) = (0, w3)"
    "fs_files w3 = fs_files w2" "streams w3 = streams w2" "strings w3 = strings w2"
    "set (fs_dirs w3) \<subseteq> set (fs_dirs w2)"
    "set (fs_dirs w2) - set (fs_dirs w3) \<subseteq> set (rev (dir_prefixes path))"
    "\<forall>d\<in>set (rev (dir_prefixes path)).
       is_dir w3 d \<longrightarrow> (\<exists>e\<in>set (map fst (fs_files w3) @ fs_dirs w3). inside d e)"
    using remove_parents_ok [OF _ rev_dir_prefixes_sorted, of path w2] by blast
  have del: "BarFlyFileDelete w1 (fly\<lparr>status := DELETING\<rparr>) = Returns (0, w3)"
    using pth u al w3(1) by (simp add: BarFlyFileDelete_def w1_def)
  define w4 where "w4 = w3\<lparr>strings := filter (\<lambda>s. fst s \<noteq> a) (strings w3)\<rparr>"
  have f1: "free_if_set w3 (audio_file_path (fly\<lparr>status := DELETING\<rparr>)) = Returns w4"
    using pth w3(4) by (simp add: free_if_set_def free_def w4_def w2_def w1_def)
  obtain w5 where f2: "free_if_set w4 (cover_art_url (fly\<lparr>status := DELETING\<rparr>)) = Returns w5"
    and w5: "streams w5 = streams w4" "fs_files w5 = fs_files w4" "fs_dirs w5 = fs_dirs w4"
    using cover w3(4)
    by (auto simp: free_if_set_def free_def w4_def w2_def w1_def map_of_filter_fst)
  have first: "BarFlyClose w (Some fly) = Returns (0, Some (fly\<lparr>status := DELETING\<rparr>), w5)"
    using nc fl(1) c1 del f1 f2 by (simp add: BarFlyClose_def obind_def)
  have closed: "map_of (streams w5) h = None"
    using w5(1) w3(3) by (simp add: w4_def w2_def w1_def map_of_filter_fst)
  then have second: "BarFlyClose w5 (Some (fly\<lparr>status := DELETING\<rparr>)) = Undefined"
    using fl(1) by (simp add: BarFlyClose_def obind_def fclose_def)
  have "fs_files w5 = filter (\<lambda>f. fst f \<noteq> path) (fs_files w)"
    using w5(2) w3(2) by (simp add: w4_def w2_def w1_def)
  moreover have "set (fs_dirs w5) \<subseteq> set (fs_dirs w)"
    "set (fs_dirs w) - set (fs_dirs w5) \<subseteq> set (dir_prefixes path)"
    using w5(3) w3(5,6) by (auto simp: w4_def w2_def w1_def)
  moreover have "\<forall>d\<in>set (dir_prefixes path).
      is_dir w5 d \<longrightarrow> (\<exists>e\<in>set (map fst (fs_files w5) @ fs_dirs w5). inside d e)"
    using w3(7) w5(2,3) by (simp add: w4_def is_dir_def)
  ultimately show ?thesis
    using first closed second by blast
qed

lemma abort_close_no_pointers:
  assumes "\<not> completed fly" and "audio_file fly = None" and "audio_file_path fly = None"
    and "cover_art_url fly = None"
  shows "BarFlyClose w (Some fly) = Returns (0, Some (fly\<lparr>status := DELETING\<rparr>), w)"
  using assms by (simp add: BarFlyClose_def BarFlyFileDelete_def free_if_set_def obind_def)


text \<open>The hypothesis that the path has ordinary names only is needed for the status 0: a
  song whose album translates to the empty name, recorded with the template
  \<open>%artist/%album/%title\<close>, has the path \<open>A//C.mp3\<close>. \<open>_BarFlyFileDelete\<close> removes \<open>A/\<close>,
  which is the directory \<open>A\<close>, and then fails to remove \<open>A\<close>: the first abort-close
  returns -1.\<close>

lemma abort_close_empty_name:
  "BarFlyOpen scraper_offline world0 fly_blank (song0\<lparr>song_album := ''?''\<rparr>)
     (settings0\<lparr>audioFileName := ''%artist/%album/%title''\<rparr>) =
     Returns (-1, fly_recording\<lparr>album := ''?''\<rparr>,
       world_recording\<lparr>strings := [(0, ''A//C.mp3'')]\<rparr>) \<and>
   BarFlyClose (world_recording\<lparr>strings := [(0, ''A//C.mp3'')]\<rparr>)
     (Some (fly_recording\<lparr>album := ''?''\<rparr>)) =
     Returns (-1, Some (fly_recording\<lparr>album := ''?'', status := DELETING\<rparr>), world_closed)"
  by (simp add: world_eval recorder_eval example_eval world_closed_def)

text \<open>C7, amended. A recorder that is not completed and holds no stream, no path and no
  cover URL is left alone by abort-close but for its status: the first call returns 0 in state
  \<open>DELETING\<close> with the world as it was, and so does the second. For a recorder that is
  recording (stream open, path made of ordinary names, file and parent directories present,
  allocations succeeding) the first abort-close returns 0 in state \<open>DELETING\<close>; the stream is
  closed, the file is gone, only parent directories of the file were removed, and every
  parent directory that is left is not empty. The structure still holds the closed stream
  and the freed path, so a second abort-close is not a no-op: it closes the stream again,
  which is undefined behaviour.\<close>

theorem abort_close_twice:
  assumes "\<not> completed fly"
  shows "(audio_file fly = None \<and> audio_file_path fly = None \<and> cover_art_url fly = None \<longrightarrow>
      BarFlyClose w (Some fly) = Returns (0, Some (fly\<lparr>status := DELETING\<rparr>), w) \<and>
      BarFlyClose w (Some (fly\<lparr>status := DELETING\<rparr>)) =
        Returns (0, Some (fly\<lparr>status := DELETING\<rparr>), w)) \<and>
    (audio_file fly = Some h \<and> map_of (streams w) h = Some q \<and>
     audio_file_path fly = Some a \<and> map_of (strings w) a = Some path \<and>
     (cover_art_url fly = None \<or>
      (\<exists>c url. cover_art_url fly = Some c \<and> c \<noteq> a \<and> map_of (strings w) c = Some url)) \<and>
     clean path \<and> is_file w path \<and>
     (\<forall>d\<in>set (dir_prefixes path). is_dir w d \<and> \<not> is_file w d) \<and> allocs w = [] \<longrightarrow>
     (\<exists>w'. BarFlyClose w (Some fly) = Returns (0, Some (fly\<lparr>status := DELETING\<rparr>), w') \<and>
        map_of (streams w') h = None \<and>
        fs_files w' = filter (\<lambda>f. fst f \<noteq> path) (fs_files w) \<and>
        set (fs_dirs w') \<subseteq> set (fs_dirs w) \<and>
        set (fs_dirs w) - set (fs_dirs w') \<subseteq> set (dir_prefixes path) \<and>
        (\<forall>d\<in>set (dir_prefixes path).
           is_dir w' d \<longrightarrow> (\<exists>e\<in>set (map fst (fs_files w') @ fs_dirs w'). inside d e)) \<and>
        BarFlyClose w' (Some (fly\<lparr>status := DELETING\<rparr>)) = Undefined))"
proof (intro conjI impI)
  assume n: "audio_file fly = None \<and> audio_file_path fly = None \<and> cover_art_url fly = None"
  then show "BarFlyClose w (Some fly) = Returns (0, Some (fly\<lparr>status := DELETING\<rparr>), w)"
    using assms by (intro abort_close_no_pointers) simp_all
  show "BarFlyClose w (Some (fly\<lparr>status := DELETING\<rparr>)) =
      Returns (0, Some (fly\<lparr>status := DELETING\<rparr>), w)"
    using abort_close_no_pointers [of "fly\<lparr>status := DELETING\<rparr>" w] n assms by simp
next
  assume r: "audio_file fly = Some h \<and> map_of (streams w) h = Some q \<and>
     audio_file_path fly = Some a \<and> map_of (strings w) a = Some path \<and>
     (cover_art_url fly = None \<or>
      (\<exists>c url. cover_art_url fly = Some c \<and> c \<noteq> a \<and> map_of (strings w) c = Some url)) \<and>
     clean path \<and> is_file w path \<and>
     (\<forall>d\<in>set (dir_prefixes path). is_dir w d \<and> \<not> is_file w d) \<and> allocs w = []"
  show "\<exists>w'. BarFlyClose w (Some fly) = Returns (0, Some (fly\<lparr>status := DELETING\<rparr>), w') \<and>
        map_of (streams w') h = None \<and>
        fs_files w' = filter (\<lambda>f. fst f \<noteq> path) (fs_files w) \<and>
        set (fs_dirs w') \<subseteq> set (fs_dirs w) \<and>
        set (fs_dirs w) - set (fs_dirs w') \<subseteq> set (dir_prefixes path) \<and>
        (\<forall>d\<in>set (dir_prefixes path).
           is_dir w' d \<longrightarrow> (\<exists>e\<in>set (map fst (fs_files w') @ fs_dirs w'). inside d e)) \<and>
        BarFlyClose w' (Some (fly\<lparr>status := DELETING\<rparr>)) = Undefined"
    by (rule abort_close_recording [of fly h w q a path]) (use assms r in simp_all)
qed

theorem abort_close_twice_witness:
  "BarFlyClose world_recording (Some fly_recording) =
     Returns (0, Some (fly_recording\<lparr>status := DELETING\<rparr>), world_closed) \<and>
   BarFlyClose world_closed (Some (fly_recording\<lparr>status := DELETING\<rparr>)) = Undefined \<and>
   BarFlyClose world0 (Some fly_blank) = Returns (0, Some (fly_blank\<lparr>status := DELETING\<rparr>), world0) \<and>
   BarFlyClose world0 (Some (fly_blank\<lparr>status := DELETING\<rparr>)) =
     Returns (0, Some (fly_blank\<lparr>status := DELETING\<rparr>), world0)"
proof -
  have c: "BarFlyClose world_recording (Some fly_recording) =
      Returns (0, Some (fly_recording\<lparr>status := DELETING\<rparr>), world_closed)"
    by (simp add: world_eval recorder_eval example_eval world_closed_def)
  have nc: "\<not> completed fly_recording" "\<not> completed fly_blank"
    by (simp_all add: example_eval)
  have r: "audio_file fly_recording = Some 1 \<and>
    map_of (streams world_recording) 1 = Some ''A/C.mp3'' \<and>
    audio_file_path fly_recording = Some 0 \<and>
    map_of (strings world_recording) 0 = Some ''A/C.mp3'' \<and>
    (cover_art_url fly_recording = None \<or>
      (\<exists>c url. cover_art_url fly_recording = Some c \<and> c \<noteq> 0 \<and>
         map_of (strings world_recording) c = Some url)) \<and>
    clean ''A/C.mp3'' \<and> is_file world_recording ''A/C.mp3'' \<and>
    (\<forall>d\<in>set (dir_prefixes ''A/C.mp3''). is_dir world_recording d \<and> \<not> is_file world_recording d) \<and>
    allocs world_recording = []"
    by (simp add: world_eval example_eval clean_def)
  have n: "audio_file fly_blank = None \<and> audio_file_path fly_blank = None \<and>
      cover_art_url fly_blank = None"
    by (simp add: example_eval)
  have "\<exists>w'. BarFlyClose world_recording (Some fly_recording) =
        Returns (0, Some (fly_recording\<lparr>status := DELETING\<rparr>), w') \<and>
      BarFlyClose w' (Some (fly_recording\<lparr>status := DELETING\<rparr>)) = Undefined"
    using abort_close_twice [OF nc(1), of world_recording 1 "''A/C.mp3''" 0 "''A/C.mp3''"] r
    by blast
  then have "BarFlyClose world_closed (Some (fly_recording\<lparr>status := DELETING\<rparr>)) = Undefined"
    using c by auto
  moreover have "BarFlyClose world0 (Some fly_blank) =
        Returns (0, Some (fly_blank\<lparr>status := DELETING\<rparr>), world0) \<and>
      BarFlyClose world0 (Some (fly_blank\<lparr>status := DELETING\<rparr>)) =
        Returns (0, Some (fly_blank\<lparr>status := DELETING\<rparr>), world0)"
    using abort_close_twice [OF nc(2), of world0] n by blast
  ultimately show ?thesis
    using c by simp
qed

text \<open>C7, as stated, on the recorder that \<open>BarFlyOpen\<close> leaves recording \<open>A/C.mp3\<close>: the first
  abort-close removes the file and its directory; the second one is not a successful
  no-op.\<close>

theorem abort_close_twice_counterexample:
  "BarFlyClose world_recording (Some fly_recording) =
     Returns (0, Some (fly_recording\<lparr>status := DELETING\<rparr>), world_closed) \<and>
   BarFlyClose world_closed (Some (fly_recording\<lparr>status := DELETING\<rparr>)) \<noteq>
     Returns (0, Some (fly_recording\<lparr>status := DELETING\<rparr>), world_closed)"
  by (simp add: world_eval recorder_eval example_eval world_closed_def)


section \<open>The options of the ID3 tag\<close>

lemma cleared_by_mask:
  fixes x m f :: int
  assumes "f AND m = f"
  shows "(x AND NOT m) AND f = 0"
proof -
  have "(x AND NOT m) AND f = (x AND NOT m) AND (f AND m)"
    using assms by simp
  also have "\<dots> = 0"
    by (simp add: bit_eq_iff bit_and_iff bit_not_iff)
  finally show ?thesis .
qed

text \<open>C3, amended: whatever options \<open>id3_tag_new\<close> set, after the call of \<open>id3_tag_options\<close>
  in \<open>_BarFlyTagID3Write\<close> the four options unsynchronisation, appended tag, CRC and
  compression are all disabled.\<close>

theorem id3_options_all_disabled:
  "\<not> option_enabled (BarFlyTagID3Write_options options) ID3_TAG_OPTION_UNSYNCHRONISATION \<and>
   \<not> option_enabled (BarFlyTagID3Write_options options) ID3_TAG_OPTION_APPENDEDTAG \<and>
   \<not> option_enabled (BarFlyTagID3Write_options options) ID3_TAG_OPTION_CRC \<and>
   \<not> option_enabled (BarFlyTagID3Write_options options) ID3_TAG_OPTION_COMPRESSION"
proof -
  have "(options AND NOT 23) AND 1 = 0" "(options AND NOT 23) AND 16 = 0"
    "(options AND NOT 23) AND 4 = 0" "(options AND NOT 23) AND 2 = 0"
    by (rule cleared_by_mask, simp)+
  then show ?thesis
    by (simp add: option_enabled_def BarFlyTagID3Write_options_def id3_tag_options_def
        ID3_TAG_OPTION_UNSYNCHRONISATION_def ID3_TAG_OPTION_APPENDEDTAG_def
        ID3_TAG_OPTION_CRC_def ID3_TAG_OPTION_COMPRESSION_def)
qed

text \<open>C3, as stated, for a tag created with unsynchronisation, compression and CRC enabled:
  unsynchronisation is not enabled in the tag that is written.\<close>

theorem id3_unsynchronisation_counterexample:
  "\<not> option_enabled (BarFlyTagID3Write_options
       (ID3_TAG_OPTION_UNSYNCHRONISATION OR ID3_TAG_OPTION_COMPRESSION OR ID3_TAG_OPTION_CRC))
     ID3_TAG_OPTION_UNSYNCHRONISATION"
  by (simp add: option_enabled_def BarFlyTagID3Write_options_def id3_tag_options_def
        ID3_TAG_OPTION_UNSYNCHRONISATION_def ID3_TAG_OPTION_APPENDEDTAG_def
        ID3_TAG_OPTION_CRC_def ID3_TAG_OPTION_COMPRESSION_def)


section \<open>Sizes of atoms\<close>

lemma set_simps [simp]:
  "a_size (set_size s a) = s" "a_children (set_size s a) = a_children a"
  "a_name (set_size s a) = a_name a" "a_data (set_size s a) = a_data a"
  "a_data_size (set_size s a) = a_data_size a" "a_offset (set_size s a) = a_offset a"
  "a_size (set_children cs a) = a_size a" "a_children (set_children cs a) = cs"
  "a_name (set_children cs a) = a_name a" "a_data (set_children cs a) = a_data a"
  "a_data_size (set_children cs a) = a_data_size a" "a_offset (set_children cs a) = a_offset a"
  "a_size (set_data d n a) = a_size a" "a_children (set_data d n a) = a_children a"
  "a_name (set_data d n a) = a_name a" "a_data (set_data d n a) = d"
  "a_data_size (set_data d n a) = n" "a_offset (set_data d n a) = a_offset a"
  by (simp_all add: set_size_def set_children_def set_data_def)

lemma set_children_same [simp]: "set_children (a_children a) a = a"
  by (simp add: set_children_def)

lemma set_children_twice [simp]: "set_children cs (set_children cs' a) = set_children cs a"
  by (simp add: set_children_def)

lemma set_size_children: "set_size s (set_children cs a) = set_children cs (set_size s a)"
  by (simp add: set_children_def set_size_def)

lemma length_modify_at [simp]: "length (modify_at p f as) = length as"
  by (cases p) simp_all

lemma length_bump_chain [simp]: "length (bump_chain p d as) = length as"
  by (cases p) simp_all

lemma bump_chain_after_modify:
  "p \<noteq> [] \<Longrightarrow>
   bump_chain (butlast p) d (modify_at p (\<lambda>a. set_size (a_size a + d) a) as) = bump_chain p d as"
proof (induction p arbitrary: as)
  case Nil
  then show ?case by simp
next
  case (Cons i p)
  show ?case
  proof (cases "p = []")
    case True
    then show ?thesis by simp
  next
    case False
    then show ?thesis
      using Cons.IH [OF False, of "a_children (as ! i)"] by simp
  qed
qed

lemma AtomBumpSize_chain: "AtomBumpSize as p d = bump_chain p d as"
proof (induction as p d rule: AtomBumpSize.induct)
  case (1 as p d)
  show ?case
  proof (cases "length p \<le> 1")
    case True
    then have "p = [] \<or> (\<exists>i. p = [i])"
      by (cases p) auto
    then show ?thesis
      by (subst AtomBumpSize.simps) auto
  next
    case False
    then have "p \<noteq> []" by auto
    show ?thesis
      using False 1 [OF False] bump_chain_after_modify [OF \<open>p \<noteq> []\<close>]
      by (subst AtomBumpSize.simps) simp
  qed
qed


lemma size_ok_iff:
  "size_ok a \<longleftrightarrow>
     a_size a = 8 + a_data_size a + sum_list (map a_size (a_children a)) \<and>
     list_all size_ok (a_children a)"
  by (cases a) simp

lemma sum_list_sizes_update:
  "i < length as \<Longrightarrow>
   sum_list (map a_size (as[i := x])) = sum_list (map a_size as) - a_size (as ! i) + a_size x"
proof (induction as arbitrary: i)
  case Nil
  then show ?case by simp
next
  case (Cons a as)
  then show ?case by (cases i) simp_all
qed

lemma list_all_update:
  "list_all P as \<Longrightarrow> P x \<Longrightarrow> list_all P (as[i := x])"
  by (auto simp: list_all_iff dest!: set_update_subset_insert [THEN subsetD])

lemma chain_ok:
  assumes "list_all size_ok as" and "lookup_at loc as = Some a"
    and "size_ok (f a)" and "a_size (f a) = a_size a + d"
  shows "list_all size_ok (bump_chain (butlast loc) d (modify_at loc f as)) \<and>
    sum_list (map a_size (bump_chain (butlast loc) d (modify_at loc f as))) =
      sum_list (map a_size as) + d"
  using assms(1,2)
proof (induction loc arbitrary: as)
  case Nil
  then show ?case by simp
next
  case (Cons i p)
  have i: "i < length as"
    using Cons.prems(2) by (simp split: if_splits)
  then have ok_i: "size_ok (as ! i)"
    using Cons.prems(1) by (simp add: list_all_length)
  show ?case
  proof (cases "p = []")
    case True
    then have "a = as ! i"
      using Cons.prems(2) i by simp
    then show ?thesis
      using True i Cons.prems(1) assms(3,4)
      by (simp add: list_all_update sum_list_sizes_update)
  next
    case False
    define cs where "cs = a_children (as ! i)"
    define cs' where "cs' = bump_chain (butlast p) d (modify_at p f cs)"
    have "list_all size_ok cs" "lookup_at p cs = Some a"
      using ok_i Cons.prems(2) i False by (simp_all add: cs_def size_ok_iff)
    then have cs': "list_all size_ok cs'"
      "sum_list (map a_size cs') = sum_list (map a_size cs) + d"
      using Cons.IH [of cs] by (simp_all add: cs'_def)
    define x where "x = set_size (a_size (as ! i) + d) (set_children cs' (as ! i))"
    have res: "bump_chain (butlast (i # p)) d (modify_at (i # p) f as) = as[i := x]"
      using False i by (simp add: x_def cs'_def cs_def)
    have "size_ok x"
      using ok_i cs' by (simp add: x_def size_ok_iff cs_def)
    moreover have "a_size x = a_size (as ! i) + d"
      by (simp add: x_def)
    ultimately show ?thesis
      using res i Cons.prems(1) by (simp add: list_all_update sum_list_sizes_update)
  qed
qed

lemma modify_at_compose:
  "modify_at p f (modify_at p g as) = modify_at p (\<lambda>a. f (g a)) as"
proof (induction p arbitrary: as)
  case Nil
  show ?case by simp
next
  case (Cons i p)
  then show ?case by simp
qed

lemma bump_chain_modify_commute:
  "bump_chain p d (modify_at p f as) =
   bump_chain (butlast p) d (modify_at p (\<lambda>a. set_size (a_size (f a) + d) (f a)) as)"
proof (cases "p = []")
  case True
  then show ?thesis by simp
next
  case False
  have "bump_chain p d (modify_at p f as) =
      bump_chain (butlast p) d (modify_at p (\<lambda>a. set_size (a_size a + d) a) (modify_at p f as))"
    using bump_chain_after_modify [OF False] by simp
  then show ?thesis
    by (simp add: modify_at_compose)
qed

lemma lookup_at_ok:
  "list_all size_ok as \<Longrightarrow> lookup_at loc as = Some a \<Longrightarrow> size_ok a"
proof (induction loc arbitrary: as)
  case Nil
  then show ?case by simp
next
  case (Cons i p)
  have i: "i < length as"
    using Cons.prems(2) by (simp split: if_splits)
  then have ok_i: "size_ok (as ! i)"
    using Cons.prems(1) by (simp add: list_all_length)
  show ?case
  proof (cases "p = []")
    case True
    then show ?thesis using Cons.prems(2) i ok_i by simp
  next
    case False
    then show ?thesis
      using Cons.IH [of "a_children (as ! i)"] Cons.prems(2) i ok_i size_ok_iff [of "as ! i"]
      by simp
  qed
qed

lemma AtomAddChild_size_ok:
  assumes "list_all size_ok as" and "size_ok child" and "lookup_at parent as = Some p"
  shows "list_all size_ok (fst (snd (AtomAddChild m as parent child)))"
proof (cases "fst (allocate m)")
  case False
  then show ?thesis using assms(1) by (simp add: AtomAddChild_def)
next
  case True
  define f where "f = (\<lambda>a. set_size (a_size (set_children (a_children a @ [child]) a) + a_size child)
      (set_children (a_children a @ [child]) a))"
  have "size_ok p"
    using lookup_at_ok [OF assms(1,3)] .
  then have "size_ok (f p)" "a_size (f p) = a_size p + a_size child"
    using assms(2) size_ok_iff [of p] size_ok_iff [of "f p"] by (simp_all add: f_def)
  then have "list_all size_ok (bump_chain (butlast parent) (a_size child) (modify_at parent f as))"
    using chain_ok [OF assms(1,3), of f "a_size child"] by simp
  moreover have "AtomBumpSize (modify_at parent (\<lambda>p. set_children (a_children p @ [child]) p) as)
      parent (a_size child) = bump_chain (butlast parent) (a_size child) (modify_at parent f as)"
    unfolding AtomBumpSize_chain f_def by (rule bump_chain_modify_commute)
  ultimately show ?thesis
    using True by (simp add: AtomAddChild_def)
qed


section \<open>Chunk offsets\<close>

lemma take_bit_32_64_add:
  "take_bit 32 (take_bit 64 x + take_bit 64 y) = take_bit 32 (x + y)" for x y :: int
proof -
  have a: "take_bit 32 (take_bit 64 z) = take_bit 32 z" for z :: int
    by (simp add: take_bit_take_bit)
  have "take_bit 32 (take_bit 64 x + take_bit 64 y) =
      take_bit 32 (take_bit 32 (take_bit 64 x) + take_bit 32 (take_bit 64 y))"
    by (simp only: take_bit_add)
  also have "\<dots> = take_bit 32 (x + y)"
    by (simp only: a take_bit_add)
  finally show ?thesis .
qed

lemma ucast_add_down: "(ucast ((x :: 64 word) + y) :: 32 word) = ucast x + ucast y"
  by transfer (simp add: take_bit_32_64_add take_bit_add)

lemma be32_LongRender: "be32 (LongRender x @ rest) = ucast x"
  apply (rule bit_word_eqI)
  apply (auto simp add: be32_def LongRender_def BufToLong_def bit_simps)
  subgoal for n by (cases "16 \<le> n") auto
  subgoal for n by (cases "16 \<le> n"; cases "24 \<le> n") auto
  done

lemma ucast_scast_be: "(ucast (BufToLong bs + d) :: 32 word) = be32 bs + ucast d"
  by (simp add: be32_def ucast_add_down)


lemma LongRender_length [simp]: "length (LongRender x) = 4"
  by (simp add: LongRender_def)

lemma BufToLong_take: "4 \<le> length xs \<Longrightarrow> BufToLong (take 4 xs) = BufToLong xs"
  by (simp add: BufToLong_def)

lemma be32_take: "4 \<le> length xs \<Longrightarrow> be32 (take 4 xs) = be32 xs"
  by (simp add: be32_def BufToLong_take)

lemma be32_from_prefix:
  assumes "take (k + 4) a = take (k + 4) b" and "k + 4 \<le> length a" and "k + 4 \<le> length b"
  shows "be32 (drop k a) = be32 (drop k b)"
proof -
  have "take 4 (drop k a) = drop k (take (k + 4) a)" "take 4 (drop k b) = drop k (take (k + 4) b)"
    by (simp_all add: drop_take)
  then have "take 4 (drop k a) = take 4 (drop k b)"
    using assms(1) by simp
  then have "be32 (take 4 (drop k a)) = be32 (take 4 (drop k b))"
    by simp
  then show ?thesis
    using assms(2,3) by (simp add: be32_take)
qed

lemma update_entries_spec:
  assumes "pos + 4 + 4 * count \<le> length buf"
  shows "length (update_entries count pos delta buf) = length buf \<and>
    take (pos + 4) (update_entries count pos delta buf) = take (pos + 4) buf \<and>
    drop (pos + 4 + 4 * count) (update_entries count pos delta buf) = drop (pos + 4 + 4 * count) buf \<and>
    (\<forall>i<count. be32 (drop (pos + 4 + 4 * i) (update_entries count pos delta buf)) =
       be32 (drop (pos + 4 + 4 * i) buf) + ucast delta)"
  using assms
proof (induction count arbitrary: pos buf)
  case 0
  then show ?case by simp
next
  case (Suc count)
  define buf1 where "buf1 = take (pos + 4) buf @
      LongRender (BufToLong (drop (pos + 4) buf) + delta) @ drop (pos + 8) buf"
  define r where "r = update_entries count (pos + 4) delta buf1"
  have len1: "length buf1 = length buf"
    using Suc.prems by (simp add: buf1_def)
  have r: "update_entries (Suc count) pos delta buf = r"
    by (simp add: r_def buf1_def)
  have "pos + 4 + 4 + 4 * count \<le> length buf1"
    using Suc.prems len1 by simp
  then have ih: "length r = length buf1"
    "take (pos + 4 + 4) r = take (pos + 4 + 4) buf1"
    "drop (pos + 4 + 4 + 4 * count) r = drop (pos + 4 + 4 + 4 * count) buf1"
    "\<forall>i<count. be32 (drop (pos + 4 + 4 + 4 * i) r) = be32 (drop (pos + 4 + 4 + 4 * i) buf1) + ucast delta"
    using Suc.IH [of "pos + 4" buf1] by (simp_all add: r_def)
  have t1: "take (pos + 4) buf1 = take (pos + 4) buf"
    using Suc.prems by (simp add: buf1_def)
  have d1: "drop (pos + 8 + k) buf1 = drop (pos + 8 + k) buf" for k
    using Suc.prems by (simp add: buf1_def add.commute)
  have "take (pos + 4) r = take (pos + 4) buf1"
    using arg_cong [OF ih(2), of "take (pos + 4)"] by (simp add: min_def)
  then have c2: "take (pos + 4) r = take (pos + 4) buf"
    using t1 by simp
  have c3: "drop (pos + 4 + 4 * Suc count) r = drop (pos + 4 + 4 * Suc count) buf"
    using ih(3) d1 [of "4 * count"] by (simp add: add.commute add.left_commute)
  have e0: "be32 (drop (pos + 4) r) = be32 (drop (pos + 4) buf) + ucast delta"
  proof -
    have "be32 (drop (pos + 4) r) = be32 (drop (pos + 4) buf1)"
      using ih(1,2) Suc.prems len1 by (intro be32_from_prefix) simp_all
    also have "drop (pos + 4) buf1 =
        LongRender (BufToLong (drop (pos + 4) buf) + delta) @ drop (pos + 8) buf"
      using Suc.prems by (simp add: buf1_def)
    also have "be32 \<dots> = ucast (BufToLong (drop (pos + 4) buf) + delta)"
      by (rule be32_LongRender)
    finally show ?thesis
      by (simp add: ucast_add_down be32_def)
  qed
  have ei: "be32 (drop (pos + 4 + 4 * i) r) = be32 (drop (pos + 4 + 4 * i) buf) + ucast delta"
    if "i < Suc count" for i
  proof (cases i)
    case 0
    then show ?thesis using e0 by simp
  next
    case (Suc j)
    then have "j < count" using that by simp
    then have "be32 (drop (pos + 4 + 4 + 4 * j) r) =
        be32 (drop (pos + 4 + 4 + 4 * j) buf1) + ucast delta"
      using ih(4) by simp
    moreover have "drop (pos + 4 + 4 + 4 * j) buf1 = drop (pos + 4 + 4 + 4 * j) buf"
      using d1 [of "4 * j"] by (simp add: add.commute add.left_commute)
    moreover have "pos + 4 + 4 * i = pos + 4 + 4 + 4 * j"
      using Suc by simp
    ultimately show ?thesis by (simp add: add.assoc)
  qed
  show ?case
    using r ih(1) len1 c2 c3 ei by simp
qed


lemma bump_chain_zero: "bump_chain p 0 as = as"
proof (induction p arbitrary: as)
  case Nil
  show ?case by simp
next
  case (Cons i p)
  have "set_size (a_size a) a = a" for a
    by (simp add: set_size_def)
  then show ?case using Cons by simp
qed

lemma modify_ok:
  assumes "list_all size_ok as" and "lookup_at loc as = Some a"
    and "size_ok (f a)" and "a_size (f a) = a_size a"
  shows "list_all size_ok (modify_at loc f as)"
  using chain_ok [OF assms(1,2), of f 0] assms(3,4) by (simp add: bump_chain_zero)

lemma FileParseAtomData_same:
  assumes "FileParseAtomData m file pos a = Returns (st, a1, p1, m1)"
  shows "a_size a1 = a_size a \<and> a_children a1 = a_children a \<and>
    a_data_size a1 = a_data_size a \<and> a_name a1 = a_name a \<and> a_offset a1 = a_offset a \<and>
    (st \<noteq> 0 \<longrightarrow> a1 = a \<and> p1 = pos) \<and> (a_data a \<noteq> None \<longrightarrow> a1 = a \<and> st = 0 \<and> m1 = m \<and> p1 = pos)"
  using assms
  by (auto simp: FileParseAtomData_def split: if_splits option.splits)

lemma size_ok_data:
  "size_ok a \<Longrightarrow> a_size a1 = a_size a \<Longrightarrow> a_children a1 = a_children a \<Longrightarrow>
   a_data_size a1 = a_data_size a \<Longrightarrow> size_ok a1"
  using size_ok_iff [of a] size_ok_iff [of a1] by simp

lemma size_ok_append_to: "size_ok a \<Longrightarrow> size_ok (append_to bytes a)"
  using size_ok_iff [of a] size_ok_iff [of "append_to bytes a"] by (simp add: append_to_def)

lemma AtomAppendData_size_ok:
  assumes ok: "list_all size_ok as"
    and r: "AtomAppendData m as loc file pos bytes = Returns (st, as', pos', m')"
  shows "list_all size_ok as'"
proof (cases "bytes = []")
  case True
  then show ?thesis using ok r by (simp add: AtomAppendData_def)
next
  case False
  then obtain a where a: "lookup_at loc as = Some a"
    using r by (auto simp: AtomAppendData_def split: option.splits)
  then obtain st1 a1 p1 m1 where f: "FileParseAtomData m file pos a = Returns (st1, a1, p1, m1)"
    using r False by (auto simp: AtomAppendData_def obind_def split: outcome.splits)
  have a_ok: "size_ok a"
    using lookup_at_ok [OF ok a] .
  have same: "a_size a1 = a_size a" "a_children a1 = a_children a" "a_data_size a1 = a_data_size a"
    using FileParseAtomData_same [OF f] by simp_all
  then have a1_ok: "size_ok a1"
    using size_ok_data [OF a_ok] by simp
  have keep: "list_all size_ok (modify_at loc (\<lambda>x. a1) as)"
    using modify_ok [OF ok a, of "\<lambda>x. a1"] a1_ok same by simp
  show ?thesis
  proof (cases "st1 \<noteq> 0 \<or> \<not> fst (allocate m1)")
    case True
    then have "as' = modify_at loc (\<lambda>x. a1) as"
      using r False a f by (auto simp: AtomAppendData_def obind_def split: if_splits)
    then show ?thesis using keep by simp
  next
    case False
    define d :: size_t where "d = of_nat (length bytes)"
    define as1 where "as1 = modify_at loc (\<lambda>x. append_to bytes a1) as"
    have loc: "loc \<noteq> []"
      using a by auto
    have "as' = (if 1 < length loc then AtomBumpSize as1 (butlast loc) d else as1)"
      using r \<open>bytes \<noteq> []\<close> a f False
      by (auto simp: AtomAppendData_def obind_def Let_def as1_def d_def split: if_splits)
    moreover have "\<not> 1 < length loc \<Longrightarrow> butlast loc = []"
      using loc by (cases loc) auto
    ultimately have "as' = bump_chain (butlast loc) d as1"
      by (auto simp: AtomBumpSize_chain)
    moreover have "size_ok (append_to bytes a1)" "a_size (append_to bytes a1) = a_size a + d"
      using size_ok_append_to [OF a1_ok] same by (simp_all add: append_to_def d_def)
    ultimately show ?thesis
      using chain_ok [OF ok a, of "\<lambda>x. append_to bytes a1" d] by (simp add: as1_def)
  qed
qed


lemma AtomOpen_ok: "AtomOpen m name off = (Some a, m') \<Longrightarrow> size_ok a \<and> a_children a = [] \<and>
    a_data a = None \<and> a_data_size a = 0 \<and> a_size a = 8"
  by (auto simp: AtomOpen_def BAR_FLY_MP4_ATOM_MIN_LENGTH_def split: if_splits)

lemma parse_header_ok:
  assumes "parse_header m file pos = (Some (a, p, rem), m')"
  shows "size_ok a"
proof -
  obtain size_l pos1 where 1: "FileParseAtomSize file pos = Some (size_l, pos1)"
    using assms by (auto simp: parse_header_def split: option.splits)
  obtain name pos2 where 2: "FileParseAtomName file pos1 = Some (name, pos2)"
    using assms 1 by (auto simp: parse_header_def split: option.splits)
  obtain atom m1 where 3: "AtomOpen m name pos = (Some atom, m1)"
    using assms 1 2 by (auto simp: parse_header_def split: option.splits prod.splits)
  have c: "a_children atom = []"
    using AtomOpen_ok [OF 3] by simp
  have "a = set_size 8 (set_data None 0 atom) \<or>
      a = set_size size_l (set_data None (size_l - 4 - 4) atom) \<or>
      a = set_size (4 + 4 + 8) (set_data None 8 atom) \<or>
      a = set_size (4 + 4 + 28) (set_data None 28 atom)"
    using assms 1 2 3 by (auto simp: parse_header_def Let_def split: if_splits)
  then show ?thesis
    using c size_ok_iff [of a] by auto
qed

lemma AtomAddChild_alone:
  assumes "size_ok atom" and "size_ok child" and "AtomAddChild m [atom] [0] child = (st, as, m')"
  shows "size_ok (hd as) \<and> length as = 1"
proof -
  have "list_all size_ok (fst (snd (AtomAddChild m [atom] [0] child)))"
    using assms(1,2) by (intro AtomAddChild_size_ok [where p = atom]) simp_all
  moreover have "length as = 1"
    using assms(3) by (auto simp: AtomAddChild_def AtomBumpSize_chain split: if_splits)
  ultimately show ?thesis
    using assms(3) by (cases as) simp_all
qed

lemma parse_size_ok:
  "(FileParseAtom depth m fl pos = Some (Some atom, pos', m') \<longrightarrow> size_ok atom) \<and>
   (size_ok atom0 \<longrightarrow> parse_children depth m fl pos atom0 remaining = Some (Some atom, pos', m') \<longrightarrow>
      size_ok atom)"
proof (induction depth arbitrary: m fl pos atom pos' m' atom0 remaining)
  case 0
  show ?case by simp
next
  case (Suc depth)
  have atom_case: "size_ok atom"
    if r: "FileParseAtom (Suc depth) m fl pos = Some (Some atom, pos', m')"
  proof -
    obtain a p rem m1 where h: "parse_header m fl pos = (Some (a, p, rem), m1)"
      using r by (auto split: prod.splits option.splits)
    then have "parse_children depth m1 fl p a rem = Some (Some atom, pos', m')"
      using r by (auto split: prod.splits option.splits)
    then show ?thesis
      using Suc [of m1 fl p atom pos' m' a rem] parse_header_ok [OF h] by blast
  qed
  have children_case: "size_ok atom"
    if ok0: "size_ok atom0"
      and r: "parse_children (Suc depth) m fl pos atom0 remaining = Some (Some atom, pos', m')"
  proof (cases "remaining = 0")
    case True
    then show ?thesis using ok0 r by simp
  next
    case False
    obtain child p1 m1 where c: "FileParseAtom depth m fl pos = Some (Some child, p1, m1)"
      using r False by (auto split: prod.splits option.splits)
    then have child_ok: "size_ok child"
      using Suc [of m fl pos child p1 m1] by blast
    obtain st as m2 where ac: "AtomAddChild m1 [atom0] [0] child = (st, as, m2)"
      by (cases "AtomAddChild m1 [atom0] [0] child")
    have "parse_children depth m2 fl p1 (hd as) (remaining - a_size child) = Some (Some atom, pos', m')"
      using r False c ac by (auto split: if_splits)
    moreover have "size_ok (hd as)"
      using AtomAddChild_alone [OF ok0 child_ok ac] by simp
    ultimately show ?thesis
      using Suc [of m2 fl p1 atom pos' m' "hd as" "remaining - a_size child"] by blast
  qed
  show ?case
    using atom_case children_case by blast
qed

lemma BarFlyMp4TagOpen_size_ok:
  assumes "BarFlyMp4TagOpen depth m path opened = Some (Some tag, m')"
  shows "list_all size_ok (atoms tag)"
proof -
  obtain fl pos m2 atom pos3 m3 where "FileParseAtom depth m2 fl pos = Some (Some atom, pos3, m3)"
    and "atoms tag = [atom]"
    using assms
    by (auto simp: BarFlyMp4TagOpen_def Let_def split: if_splits option.splits prod.splits)
  then show ?thesis
    using parse_size_ok [of depth m2 fl pos atom pos3 m3] by simp
qed


lemma find_child_Some: "find_child n as = Some i \<Longrightarrow> i < length as \<and> a_name (as ! i) = n"
proof (induction as arbitrary: i)
  case Nil
  then show ?case by simp
next
  case (Cons a as)
  then show ?case by (auto split: if_splits)
qed

lemma find_path_valid:
  "find_path ns as = Some p \<Longrightarrow> ns \<noteq> [] \<Longrightarrow> \<exists>a. lookup_at p as = Some a"
proof (induction ns arbitrary: as p)
  case Nil
  then show ?case by simp
next
  case (Cons n ns)
  obtain i where i: "find_child n as = Some i"
    using Cons.prems(1) by (auto split: option.splits)
  obtain q where q: "find_path ns (a_children (as ! i)) = Some q" "p = i # q"
    using Cons.prems(1) i by auto
  have il: "i < length as"
    using find_child_Some [OF i] by simp
  show ?case
  proof (cases "ns = []")
    case True
    then show ?thesis using q il by simp
  next
    case False
    then obtain a where "lookup_at q (a_children (as ! i)) = Some a"
      using Cons.IH [OF q(1)] by blast
    moreover have "q \<noteq> []"
      using q(1) False by (cases ns) (auto split: option.splits)
    ultimately show ?thesis using q(2) il by simp
  qed
qed

lemma split_dots_not_Nil: "split_dots s \<noteq> []"
  by (induction s) simp_all

lemma TagFindAtom_valid:
  "TagFindAtom tag path = Some p \<Longrightarrow> \<exists>a. lookup_at p (atoms tag) = Some a"
  unfolding TagFindAtom_def by (rule find_path_valid [OF _ split_dots_not_Nil])

lemma TagUpdateOffsets_size_ok:
  assumes ok: "list_all size_ok (atoms tag)"
    and r: "TagUpdateOffsets m tag d = Returns (st, tag', m')"
  shows "list_all size_ok (atoms tag')"
proof (cases "TagFindAtom tag ''moov.trak.mdia.minf.stbl.stco''")
  case None
  then show ?thesis using ok r by (simp add: TagUpdateOffsets_def)
next
  case (Some loc)
  obtain stco where a: "lookup_at loc (atoms tag) = Some stco"
    using TagFindAtom_valid [OF Some] by blast
  obtain st1 a1 p1 m1 where f: "FileParseAtomData m (mp4_file tag) (mp4_pos tag) stco = Returns (st1, a1, p1, m1)"
    using r Some a by (auto simp: TagUpdateOffsets_def obind_def split: outcome.splits)
  have same: "a_size a1 = a_size stco" "a_children a1 = a_children stco"
    "a_data_size a1 = a_data_size stco"
    using FileParseAtomData_same [OF f] by simp_all
  have "atoms tag' = atoms tag \<or>
      (\<exists>buf. atoms tag' = modify_at loc (\<lambda>a. set_data (Some buf) (a_data_size a1) a1) (atoms tag))"
    using r Some a f
    by (auto simp: TagUpdateOffsets_def obind_def split: if_splits option.splits)
  moreover have "list_all size_ok (modify_at loc (\<lambda>a. set_data (Some buf) (a_data_size a1) a1) (atoms tag))"
    for buf
  proof -
    have "size_ok (set_data (Some buf) (a_data_size a1) a1)"
      using size_ok_data [OF lookup_at_ok [OF ok a], of "set_data (Some buf) (a_data_size a1) a1"] same
      by simp
    then show ?thesis
      using modify_ok [OF ok a, of "\<lambda>a. set_data (Some buf) (a_data_size a1) a1"] same by simp
  qed
  ultimately show ?thesis
    using ok by auto
qed

lemma TagAddAtom_size_ok:
  assumes ok: "list_all size_ok (atoms tag)" and atom: "size_ok atom"
    and r: "TagAddAtom m tag parent_path atom update_offsets = Returns (st, tag', m')"
  shows "list_all size_ok (atoms tag')"
proof -
  define added where "added =
        (if parent_path = []
         then (if \<not> fst (allocate m) then (-1 :: int, tag, snd (allocate m))
               else (0, tag\<lparr>atoms := atoms tag @ [atom]\<rparr>, snd (allocate m)))
         else (case TagFindAtom tag parent_path of
                 None \<Rightarrow> (-1, tag, m)
               | Some parent \<Rightarrow>
                   (case AtomAddChild m (atoms tag) parent atom of
                      (st, as, m') \<Rightarrow> (if st \<noteq> 0 then -1 else 0, tag\<lparr>atoms := as\<rparr>, m'))))"
  obtain st1 tag1 m1 where ad: "added = (st1, tag1, m1)"
    by (cases added)
  have ok1: "list_all size_ok (atoms tag1)"
  proof (cases "parent_path = []")
    case True
    then show ?thesis using ad ok atom by (auto simp: added_def split: if_splits)
  next
    case False
    show ?thesis
    proof (cases "TagFindAtom tag parent_path")
      case None
      then show ?thesis using ad ok False by (auto simp: added_def)
    next
      case (Some parent)
      obtain p where "lookup_at parent (atoms tag) = Some p"
        using TagFindAtom_valid [OF Some] by blast
      then have "list_all size_ok (fst (snd (AtomAddChild m (atoms tag) parent atom)))"
        using AtomAddChild_size_ok [OF ok atom] by blast
      then show ?thesis
        using ad False Some by (auto simp: added_def split: prod.splits)
    qed
  qed
  have "tag' = tag1 \<or> (\<exists>st2 m2. TagUpdateOffsets m1 tag1 (a_size atom) = Returns (st2, tag', m2))"
    using r ad unfolding TagAddAtom_def added_def [symmetric]
    by (auto simp: Let_def obind_def split: if_splits outcome.splits)
  then show ?thesis
    using ok1 TagUpdateOffsets_size_ok [OF ok1] by blast
qed


lemma AtomAppendData_length:
  "AtomAppendData m as loc fl pos bytes = Returns (st, as', pos', m') \<Longrightarrow> length as' = length as"
  by (auto simp: AtomAppendData_def obind_def AtomBumpSize_chain Let_def
      split: if_splits option.splits outcome.splits)

lemma append_alone_ok:
  assumes "size_ok atom" and "append_alone m atom fl pos bytes = Returns (st, a', p', m')"
  shows "size_ok a'"
proof -
  obtain as' where r: "AtomAppendData m [atom] [0] fl pos bytes = Returns (st, as', p', m')"
    and a': "a' = hd as'"
    using assms(2) by (auto simp: append_alone_def obind_def split: outcome.splits)
  have "list_all size_ok as'"
    using AtomAppendData_size_ok [OF _ r] assms(1) by simp
  moreover have "length as' = 1"
    using AtomAppendData_length [OF r] by simp
  ultimately show ?thesis
    using a' by (cases as') simp_all
qed

lemma add_udta_size_ok:
  assumes "list_all size_ok (atoms tag)" and "add_udta m tag = Returns (st, tag', m')"
  shows "list_all size_ok (atoms tag')"
proof (cases "TagFindAtom tag ''moov.udta'' = None")
  case False
  then show ?thesis using assms by (auto simp: add_udta_def)
next
  case True
  show ?thesis
  proof (cases "AtomOpen m ''udta'' (-1)")
    case (Pair opened m1)
    show ?thesis
    proof (cases opened)
      case None
      then show ?thesis using assms True Pair by (simp add: add_udta_def)
    next
      case (Some atom)
      then obtain st2 where "TagAddAtom m1 tag ''moov'' atom True = Returns (st2, tag', m')"
        using assms(2) True Pair by (auto simp: add_udta_def obind_def split: outcome.splits)
      then show ?thesis
        using TagAddAtom_size_ok [OF assms(1)] AtomOpen_ok Pair Some by blast
    qed
  qed
qed

lemma add_with_data_size_ok:
  assumes "list_all size_ok (atoms tag)"
    and "add_with_data name parent_path bytes m tag = Returns (st, tag', m')"
  shows "list_all size_ok (atoms tag')"
proof (cases "AtomOpen m name (-1)")
  case (Pair opened m1)
  show ?thesis
  proof (cases opened)
    case None
    then show ?thesis using assms Pair by (simp add: add_with_data_def)
  next
    case (Some atom)
    have atom: "size_ok atom"
      using AtomOpen_ok Pair Some by blast
    obtain st2 as pos m2 where ap: "AtomAppendData m1 [atom] [0] (mp4_file tag) (mp4_pos tag) bytes =
        Returns (st2, as, pos, m2)"
      using assms(2) Pair Some by (auto simp: add_with_data_def obind_def split: outcome.splits)
    have "list_all size_ok as" "length as = 1"
      using AtomAppendData_size_ok [OF _ ap] AtomAppendData_length [OF ap] atom by simp_all
    then have hd_ok: "size_ok (hd as)"
      by (cases as) simp_all
    show ?thesis
    proof (cases "st2 = 0")
      case False
      then show ?thesis using assms Pair Some ap by (auto simp: add_with_data_def obind_def)
    next
      case True
      then obtain st3 where "TagAddAtom m2 (tag\<lparr>mp4_pos := pos\<rparr>) parent_path (hd as) True =
          Returns (st3, tag', m')"
        using assms(2) Pair Some ap by (auto simp: add_with_data_def obind_def split: outcome.splits)
      then show ?thesis
        using TagAddAtom_size_ok [of "tag\<lparr>mp4_pos := pos\<rparr>" "hd as"] assms(1) hd_ok by simp
    qed
  qed
qed

lemma add_ilst_size_ok:
  assumes "list_all size_ok (atoms tag)" and "add_ilst m tag = Returns (st, tag', m')"
  shows "list_all size_ok (atoms tag')"
proof (cases "AtomOpen m ''ilst'' (-1)")
  case (Pair opened m1)
  show ?thesis
  proof (cases opened)
    case None
    then show ?thesis using assms Pair by (simp add: add_ilst_def)
  next
    case (Some atom)
    then obtain st2 where "TagAddAtom m1 tag ''moov.udta.meta'' atom True = Returns (st2, tag', m')"
      using assms(2) Pair by (auto simp: add_ilst_def obind_def split: outcome.splits)
    then show ?thesis
      using TagAddAtom_size_ok [OF assms(1)] AtomOpen_ok Pair Some by blast
  qed
qed

lemma go_on_size_ok:
  assumes r: "go_on prev step = Returns (st, tag', m')"
    and prev: "\<And>st1 tag1 m1. prev = Returns (st1, tag1, m1) \<Longrightarrow> list_all size_ok (atoms tag1)"
    and step: "\<And>m1 tag1 st2 tag2 m2. list_all size_ok (atoms tag1) \<Longrightarrow>
       step m1 tag1 = Returns (st2, tag2, m2) \<Longrightarrow> list_all size_ok (atoms tag2)"
  shows "list_all size_ok (atoms tag')"
proof -
  obtain st1 tag1 m1 where p: "prev = Returns (st1, tag1, m1)"
    using r by (cases prev) (auto simp: go_on_def obind_def)
  show ?thesis
  proof (cases "st1 = 0")
    case True
    then have "step m1 tag1 = Returns (st, tag', m')"
      using r p by (simp add: go_on_def obind_def)
    then show ?thesis using step prev [OF p] by blast
  next
    case False
    then show ?thesis using r p prev [OF p] by (simp add: go_on_def obind_def)
  qed
qed

lemma ensure_ilst_size_ok:
  assumes ok: "list_all size_ok (atoms tag)" and r: "ensure_ilst m tag = Returns (st, tag', m')"
  shows "list_all size_ok (atoms tag')"
proof (cases "TagFindAtom tag ''moov.udta.meta.ilst'' = None")
  case False
  then show ?thesis using assms by (auto simp: ensure_ilst_def)
next
  case True
  have meta: "list_all size_ok (atoms t) \<Longrightarrow> add_meta m1 t = Returns (s2, t2, m2) \<Longrightarrow>
      list_all size_ok (atoms t2)" for t m1 s2 t2 m2
    using add_with_data_size_ok by (auto simp: add_meta_def split: if_splits)
  have hdlr: "list_all size_ok (atoms t) \<Longrightarrow> add_hdlr m1 t = Returns (s2, t2, m2) \<Longrightarrow>
      list_all size_ok (atoms t2)" for t m1 s2 t2 m2
    using add_with_data_size_ok by (auto simp: add_hdlr_def split: if_splits)
  have "go_on (go_on (go_on (add_udta m tag) add_meta) add_hdlr) add_ilst = Returns (st, tag', m')"
    using r True by (simp add: ensure_ilst_def)
  then show ?thesis
    by (rule go_on_size_ok)
      (erule go_on_size_ok, erule go_on_size_ok, erule add_udta_size_ok [OF ok],
        erule (1) meta, erule (1) hdlr, erule (1) add_ilst_size_ok)
qed

lemma build_meta_atom_size_ok:
  assumes "build_meta_atom m tag name class bytes = Returns (Some meta_atom, pos, m')"
  shows "size_ok meta_atom"
proof -
  obtain a0 m1 where 1: "AtomOpen m name (-1) = (Some a0, m1)"
    using assms by (auto simp: build_meta_atom_def split: prod.splits option.splits)
  obtain d0 m2 where 2: "AtomOpen m1 ''data'' (-1) = (Some d0, m2)"
    using assms 1 by (auto simp: build_meta_atom_def split: prod.splits option.splits)
  obtain st3 d3 pos3 m3 where 3: "append_alone m2 d0 (mp4_file tag) (mp4_pos tag) (take 4 class) =
      Returns (st3, d3, pos3, m3)"
    using assms 1 2 by (auto simp: build_meta_atom_def obind_def split: outcome.splits)
  have s3: "st3 = 0"
    using assms 1 2 3 by (auto simp: build_meta_atom_def obind_def split: if_splits)
  obtain st4 d4 pos4 m4 where 4: "append_alone m3 d3 (mp4_file tag) pos3 [0, 0, 0, 0] =
      Returns (st4, d4, pos4, m4)"
    using assms 1 2 3 s3 by (auto simp: build_meta_atom_def obind_def split: outcome.splits)
  have s4: "st4 = 0"
    using assms 1 2 3 s3 4 by (auto simp: build_meta_atom_def obind_def split: if_splits)
  obtain st5 d5 pos5 m5 where 5: "append_alone m4 d4 (mp4_file tag) pos4 bytes =
      Returns (st5, d5, pos5, m5)"
    using assms 1 2 3 s3 4 s4 by (auto simp: build_meta_atom_def obind_def split: outcome.splits)
  have s5: "st5 = 0"
    using assms 1 2 3 s3 4 s4 5 by (auto simp: build_meta_atom_def obind_def split: if_splits)
  obtain st6 as m6 where 6: "AtomAddChild m5 [a0] [0] d5 = (st6, as, m6)"
    by (cases "AtomAddChild m5 [a0] [0] d5")
  have m: "meta_atom = hd as"
    using assms 1 2 3 s3 4 s4 5 s5 6 by (auto simp: build_meta_atom_def obind_def split: if_splits)
  have "size_ok d5"
    using append_alone_ok [OF append_alone_ok [OF append_alone_ok [OF _ 3] 4] 5] AtomOpen_ok [OF 2]
    by simp
  then show ?thesis
    using AtomAddChild_alone [OF _ _ 6] AtomOpen_ok [OF 1] m by simp
qed

lemma TagAddMetaAtom_size_ok:
  assumes ok: "list_all size_ok (atoms tag)"
    and r: "TagAddMetaAtom m tag name class bytes = Returns (st, tag', m')"
  shows "list_all size_ok (atoms tag')"
proof -
  obtain st1 tag1 m1 where e: "ensure_ilst m tag = Returns (st1, tag1, m1)"
    using r by (cases "ensure_ilst m tag") (auto simp: TagAddMetaAtom_def obind_def)
  have ok1: "list_all size_ok (atoms tag1)"
    using ensure_ilst_size_ok [OF ok e] .
  show ?thesis
  proof (cases "st1 = 0")
    case False
    then show ?thesis using r e ok1 by (simp add: TagAddMetaAtom_def obind_def)
  next
    case True
    obtain built pos m2 where b: "build_meta_atom m1 tag1 name class bytes = Returns (built, pos, m2)"
      using r e True
      by (cases "build_meta_atom m1 tag1 name class bytes") (auto simp: TagAddMetaAtom_def obind_def)
    show ?thesis
    proof (cases built)
      case None
      then show ?thesis using r e True b ok1 by (auto simp: TagAddMetaAtom_def obind_def)
    next
      case (Some meta_atom)
      then obtain st3 where "TagAddAtom m2 (tag1\<lparr>mp4_pos := pos\<rparr>) ''moov.udta.meta.ilst'' meta_atom True =
          Returns (st3, tag', m')"
        using r e True b by (auto simp: TagAddMetaAtom_def obind_def split: outcome.splits)
      then show ?thesis
        using TagAddAtom_size_ok [of "tag1\<lparr>mp4_pos := pos\<rparr>" meta_atom] ok1
          build_meta_atom_size_ok b Some by simp
    qed
  qed
qed


lemma chain_sizes_bump_chain:
  "chain_sizes p (bump_chain p d as) = map (\<lambda>s. s + d) (chain_sizes p as)"
  by (induction p arbitrary: as) simp_all

lemma chain_sizes_length:
  "lookup_at loc as = Some a \<Longrightarrow> length (chain_sizes loc as) = length loc"
proof (induction loc arbitrary: as)
  case Nil
  then show ?case by simp
next
  case (Cons i p)
  then show ?case
    by (cases "p = []") (auto split: if_splits)
qed

lemma chain_effect:
  assumes "lookup_at loc as = Some a" and "a_size (f a) = a_size a + d"
  shows "chain_sizes loc (bump_chain (butlast loc) d (modify_at loc f as)) =
      map (\<lambda>s. s + d) (chain_sizes loc as) \<and>
    lookup_at loc (bump_chain (butlast loc) d (modify_at loc f as)) = Some (f a)"
  using assms(1)
proof (induction loc arbitrary: as)
  case Nil
  then show ?case by simp
next
  case (Cons i p)
  have i: "i < length as"
    using Cons.prems by (simp split: if_splits)
  show ?case
  proof (cases "p = []")
    case True
    then have "a = as ! i"
      using Cons.prems i by simp
    then show ?thesis
      using True i assms(2) by simp
  next
    case False
    then have "lookup_at p (a_children (as ! i)) = Some a"
      using Cons.prems i by simp
    then show ?thesis
      using Cons.IH [of "a_children (as ! i)"] False i by simp
  qed
qed

lemma AtomAppendData_effect:
  assumes r: "AtomAppendData m as loc fl pos bytes = Returns (0, as', pos', m')"
    and ne: "bytes \<noteq> []"
  shows "\<exists>a a'. lookup_at loc as = Some a \<and> lookup_at loc as' = Some a' \<and>
    a_size a' = a_size a + of_nat (length bytes) \<and>
    a_data_size a' = a_data_size a + of_nat (length bytes) \<and>
    a_children a' = a_children a \<and> a_name a' = a_name a \<and>
    (\<exists>buf. a_data a' = Some (buf @ bytes) \<and> (\<forall>b. a_data a = Some b \<longrightarrow> buf = b)) \<and>
    chain_sizes loc as' = map (\<lambda>s. s + of_nat (length bytes)) (chain_sizes loc as) \<and>
    length (chain_sizes loc as) = length loc"
proof -
  obtain a where a: "lookup_at loc as = Some a"
    using r ne by (auto simp: AtomAppendData_def split: option.splits)
  then obtain st1 a1 p1 m1 where f: "FileParseAtomData m fl pos a = Returns (st1, a1, p1, m1)"
    using r ne by (auto simp: AtomAppendData_def obind_def split: outcome.splits)
  have same: "a_size a1 = a_size a" "a_children a1 = a_children a" "a_data_size a1 = a_data_size a"
    "a_name a1 = a_name a" "a_data a \<noteq> None \<longrightarrow> a1 = a"
    using FileParseAtomData_same [OF f] by simp_all
  define d :: size_t where "d = of_nat (length bytes)"
  define as1 where "as1 = modify_at loc (\<lambda>x. append_to bytes a1) as"
  have loc: "loc \<noteq> []"
    using a by auto
  have ok: "st1 = 0" "fst (allocate m1)"
    using r ne a f by (auto simp: AtomAppendData_def obind_def split: if_splits)
  have "as' = (if 1 < length loc then AtomBumpSize as1 (butlast loc) d else as1)"
    using r ne a f ok
    by (auto simp: AtomAppendData_def obind_def Let_def as1_def d_def split: if_splits)
  moreover have "\<not> 1 < length loc \<Longrightarrow> butlast loc = []"
    using loc by (cases loc) auto
  ultimately have as': "as' = bump_chain (butlast loc) d (modify_at loc (\<lambda>x. append_to bytes a1) as)"
    by (auto simp: AtomBumpSize_chain as1_def)
  have fa: "a_size (append_to bytes a1) = a_size a + d"
    "a_children (append_to bytes a1) = a_children a @ []"
    using same by (simp_all add: append_to_def d_def)
  have eff: "chain_sizes loc as' = map (\<lambda>s. s + d) (chain_sizes loc as)"
    "lookup_at loc as' = Some (append_to bytes a1)"
    using chain_effect [OF a, of "\<lambda>x. append_to bytes a1" d] fa as' by simp_all
  have "a_data (append_to bytes a1) = Some (buffer_of a1 @ bytes)"
    by (simp add: append_to_def)
  moreover have "\<forall>b. a_data a = Some b \<longrightarrow> buffer_of a1 = b"
    using same(5) by (auto simp: buffer_of_def)
  moreover have "a_data_size (append_to bytes a1) = a_data_size a + d"
    "a_name (append_to bytes a1) = a_name a"
    using same by (simp_all add: append_to_def d_def)
  ultimately show ?thesis
    using a eff fa chain_sizes_length [OF a] by (auto simp: d_def)
qed

lemma AtomAddChild_effect:
  assumes r: "AtomAddChild m as parent child = (0, as', m')"
    and p: "lookup_at parent as = Some p"
  shows "\<exists>p'. lookup_at parent as' = Some p' \<and> a_children p' = a_children p @ [child] \<and>
    a_size p' = a_size p + a_size child \<and> a_name p' = a_name p \<and> a_data p' = a_data p \<and>
    a_data_size p' = a_data_size p \<and>
    chain_sizes parent as' = map (\<lambda>s. s + a_size child) (chain_sizes parent as) \<and>
    length (chain_sizes parent as) = length parent"
proof -
  define f where "f = (\<lambda>a. set_size (a_size (set_children (a_children a @ [child]) a) + a_size child)
      (set_children (a_children a @ [child]) a))"
  have al: "fst (allocate m)"
    using r by (auto simp: AtomAddChild_def split: if_splits)
  have "AtomBumpSize (modify_at parent (\<lambda>p. set_children (a_children p @ [child]) p) as)
      parent (a_size child) = bump_chain (butlast parent) (a_size child) (modify_at parent f as)"
    unfolding AtomBumpSize_chain f_def by (rule bump_chain_modify_commute)
  then have as': "as' = bump_chain (butlast parent) (a_size child) (modify_at parent f as)"
    using r al by (simp add: AtomAddChild_def)
  have fp: "a_size (f p) = a_size p + a_size child" "a_children (f p) = a_children p @ [child]"
    by (simp_all add: f_def)
  have "chain_sizes parent as' = map (\<lambda>s. s + a_size child) (chain_sizes parent as)"
    "lookup_at parent as' = Some (f p)"
    using chain_effect [OF p, of f "a_size child"] fp as' by simp_all
  moreover have "a_name (f p) = a_name p" "a_data (f p) = a_data p"
    "a_data_size (f p) = a_data_size p"
    by (simp_all add: f_def)
  ultimately show ?thesis
    using fp chain_sizes_length [OF p] by simp
qed


section \<open>The example file\<close>

lemma char_of_unat: "char_of (unat (b :: byte)) =
    Char (bit b 0) (bit b 1) (bit b 2) (bit b 3) (bit b 4) (bit b 5) (bit b 6) (bit b 7)"
  by (simp add: char_of_def bit_unsigned_iff)

lemma depth_numeral:
  "FileParseAtom (numeral k) m fl p = FileParseAtom (Suc (pred_numeral k)) m fl p"
  "parse_children (numeral k) m fl p a r = parse_children (Suc (pred_numeral k)) m fl p a r"
  by (simp_all add: numeral_eq_Suc)

lemmas mp4_eval = cstring_def char_of_unat name_bytes_def string_bytes_def BufToLong_def
  LongRender_def fread_def FileParseLong_def FileParseAtomSize_def FileParseAtomName_def
  BAR_FLY_MP4_ATOM_MIN_LENGTH_def AtomOpen_def allocate_def data_names_def children_names_def
  parse_names_def parse_header_def set_size_def set_data_def set_children_def
  Let_def


lemma h_stco: "parse_header [] file0 56 = (Some (stco0 None, 80, 0), [])"
  by (simp add: mp4_eval file0_def stco0_def)

lemma p_stco: "FileParseAtom (Suc (Suc d)) [] file0 56 = Some (Some (stco0 None), 80, [])"
  by (simp add: h_stco)

lemma h_stbl: "parse_header [] file0 48 = (Some (Atom ''stbl'' 8 [] None 0 48, 56, 24), [])"
  by (simp add: mp4_eval file0_def)

lemmas add_eval = AtomAddChild_def AtomBumpSize_chain allocate_def set_size_def
  set_children_def set_data_def

lemma p_stbl: "FileParseAtom (Suc (Suc (Suc (Suc d)))) [] file0 48 =
    Some (Some (Atom ''stbl'' 32 [stco0 None] None 0 48), 80, [])"
  by (simp add: h_stbl h_stco add_eval stco0_def)

lemma h_minf: "parse_header [] file0 40 = (Some (Atom ''minf'' 8 [] None 0 40, 48, 32), [])"
  by (simp add: mp4_eval file0_def)

lemma h_mdia: "parse_header [] file0 32 = (Some (Atom ''mdia'' 8 [] None 0 32, 40, 40), [])"
  by (simp add: mp4_eval file0_def)

lemma h_trak: "parse_header [] file0 24 = (Some (Atom ''trak'' 8 [] None 0 24, 32, 48), [])"
  by (simp add: mp4_eval file0_def)

lemma h_moov: "parse_header [] file0 16 = (Some (Atom ''moov'' 8 [] None 0 16, 24, 56), [])"
  by (simp add: mp4_eval file0_def)

lemma p_moov: "FileParseAtom (Suc (Suc (Suc (Suc (Suc (Suc (Suc (Suc (Suc (Suc (Suc (Suc d))))))))))))
     [] file0 16 = Some (Some (Atom ''moov'' 64 [trak0 None] None 0 16), 80, [])"
  by (simp add: h_moov h_trak h_mdia h_minf h_stbl h_stco add_eval trak0_def stco0_def)

lemma depth40: "(40 :: nat) = Suc (Suc (Suc (Suc (Suc (Suc (Suc (Suc (Suc (Suc (Suc (Suc 28)))))))))))"
  by simp

lemma open0: "BarFlyMp4TagOpen 40 [] ''x.m4a'' (Some file0) = Some (Some tag0, [])"
proof -
  have "FileParseAtomSize file0 0 = Some (16, 4)" "FileParseAtomName file0 4 = Some (''ftyp'', 8)"
    by (simp_all add: mp4_eval file0_def)
  moreover have "FileParseAtom 40 [] file0 16 = Some (Some (Atom ''moov'' 64 [trak0 None] None 0 16), 80, [])"
    unfolding depth40 by (rule p_moov)
  ultimately show ?thesis
    by (simp add: BarFlyMp4TagOpen_def allocate_def tag0_def)
qed




section \<open>Size accounting\<close>

text \<open>C2: the size of every atom is 8 plus the size of its payload plus the sizes of its
  children (\<open>size_ok\<close>, in the arithmetic of \<open>size_t\<close>) in every atom that the parser returns
  and in the tag that \<open>BarFlyMp4TagOpen\<close> returns. Appending data to an atom of a list of
  atoms, adding a child to one and adding a metadata atom to a tag keep it for all the
  atoms, whatever the status. They keep it by propagating the delta: when data is appended,
  the bytes are put after the payload of the atom, and the size of the atom and of every
  atom of its parent chain grows by the number of bytes; when a child is added, it becomes
  the last child of the parent, and the size of the parent and of every atom of its parent
  chain grows by the size of the child; \<open>AtomBumpSize\<close> adds the delta to the atom and to
  every atom of its parent chain.\<close>

theorem size_accounting:
  "(FileParseAtom depth m fl pos = Some (Some atom, pos', m') \<longrightarrow> size_ok atom) \<and>
   (BarFlyMp4TagOpen depth m path opened = Some (Some tag1, m1) \<longrightarrow> list_all size_ok (atoms tag1)) \<and>
   (list_all size_ok as \<and> AtomAppendData m as loc fl pos bytes = Returns (st, as', pos2, m2) \<longrightarrow>
      list_all size_ok as') \<and>
   (bytes \<noteq> [] \<and> AtomAppendData m as loc fl pos bytes = Returns (0, as', pos2, m2) \<longrightarrow>
      (\<exists>a a'. lookup_at loc as = Some a \<and> lookup_at loc as' = Some a' \<and>
         a_size a' = a_size a + of_nat (length bytes) \<and>
         a_data_size a' = a_data_size a + of_nat (length bytes) \<and>
         a_children a' = a_children a \<and> a_name a' = a_name a \<and>
         (\<exists>buf. a_data a' = Some (buf @ bytes) \<and> (\<forall>b. a_data a = Some b \<longrightarrow> buf = b)) \<and>
         chain_sizes loc as' = map (\<lambda>s. s + of_nat (length bytes)) (chain_sizes loc as) \<and>
         length (chain_sizes loc as) = length loc)) \<and>
   (list_all size_ok as \<and> size_ok child \<and> lookup_at parent as = Some p \<longrightarrow>
      list_all size_ok (fst (snd (AtomAddChild m as parent child)))) \<and>
   (lookup_at parent as = Some p \<and> AtomAddChild m as parent child = (0, as2, m3) \<longrightarrow>
      (\<exists>p'. lookup_at parent as2 = Some p' \<and> a_children p' = a_children p @ [child] \<and>
         a_size p' = a_size p + a_size child \<and> a_name p' = a_name p \<and> a_data p' = a_data p \<and>
         a_data_size p' = a_data_size p \<and>
         chain_sizes parent as2 = map (\<lambda>s. s + a_size child) (chain_sizes parent as) \<and>
         length (chain_sizes parent as) = length parent)) \<and>
   (list_all size_ok (atoms tag) \<and> TagAddMetaAtom m tag name class bytes = Returns (st3, tag3, m4) \<longrightarrow>
      list_all size_ok (atoms tag3)) \<and>
   AtomBumpSize as loc delta = bump_chain loc delta as \<and>
   chain_sizes loc (AtomBumpSize as loc delta) = map (\<lambda>s. s + delta) (chain_sizes loc as)"
proof (intro conjI impI)
  assume "FileParseAtom depth m fl pos = Some (Some atom, pos', m')"
  then show "size_ok atom"
    using parse_size_ok [of depth m fl pos atom pos' m'] by simp
next
  assume "BarFlyMp4TagOpen depth m path opened = Some (Some tag1, m1)"
  then show "list_all size_ok (atoms tag1)"
    by (rule BarFlyMp4TagOpen_size_ok)
next
  assume "list_all size_ok as \<and> AtomAppendData m as loc fl pos bytes = Returns (st, as', pos2, m2)"
  then show "list_all size_ok as'"
    by (blast intro: AtomAppendData_size_ok)
next
  assume "bytes \<noteq> [] \<and> AtomAppendData m as loc fl pos bytes = Returns (0, as', pos2, m2)"
  then show "\<exists>a a'. lookup_at loc as = Some a \<and> lookup_at loc as' = Some a' \<and>
         a_size a' = a_size a + of_nat (length bytes) \<and>
         a_data_size a' = a_data_size a + of_nat (length bytes) \<and>
         a_children a' = a_children a \<and> a_name a' = a_name a \<and>
         (\<exists>buf. a_data a' = Some (buf @ bytes) \<and> (\<forall>b. a_data a = Some b \<longrightarrow> buf = b)) \<and>
         chain_sizes loc as' = map (\<lambda>s. s + of_nat (length bytes)) (chain_sizes loc as) \<and>
         length (chain_sizes loc as) = length loc"
    using AtomAppendData_effect [of m as loc fl pos bytes as' pos2 m2] by simp
next
  assume "list_all size_ok as \<and> size_ok child \<and> lookup_at parent as = Some p"
  then show "list_all size_ok (fst (snd (AtomAddChild m as parent child)))"
    by (blast intro: AtomAddChild_size_ok)
next
  assume "lookup_at parent as = Some p \<and> AtomAddChild m as parent child = (0, as2, m3)"
  then show "\<exists>p'. lookup_at parent as2 = Some p' \<and> a_children p' = a_children p @ [child] \<and>
         a_size p' = a_size p + a_size child \<and> a_name p' = a_name p \<and> a_data p' = a_data p \<and>
         a_data_size p' = a_data_size p \<and>
         chain_sizes parent as2 = map (\<lambda>s. s + a_size child) (chain_sizes parent as) \<and>
         length (chain_sizes parent as) = length parent"
    using AtomAddChild_effect [of m as parent child as2 m3 p] by simp
next
  assume "list_all size_ok (atoms tag) \<and> TagAddMetaAtom m tag name class bytes = Returns (st3, tag3, m4)"
  then show "list_all size_ok (atoms tag3)"
    by (blast intro: TagAddMetaAtom_size_ok)
next
  show "AtomBumpSize as loc delta = bump_chain loc delta as"
    by (rule AtomBumpSize_chain)
next
  show "chain_sizes loc (AtomBumpSize as loc delta) = map (\<lambda>s. s + delta) (chain_sizes loc as)"
    by (simp add: AtomBumpSize_chain chain_sizes_bump_chain)
qed

lemma append0:
  "AtomAppendData [] (atoms tag0) [0, 0, 0, 0, 0, 0] file0 80 [7, 7, 7, 7] =
     Returns (0,
       [Atom ''moov'' 68
          [Atom ''trak'' 60
             [Atom ''mdia'' 52
                [Atom ''minf'' 44
                   [Atom ''stbl'' 36
                      [Atom ''stco'' 28 []
                         (Some [0, 0, 0, 0, 0, 0, 0, 2, 0, 0, 1, 244, 0, 0, 3, 132, 7, 7, 7, 7])
                         20 56]
                      None 0 48]
                   None 0 40]
                None 0 32]
             None 0 24]
          None 0 16], 80, [])"
  by (simp add: AtomAppendData_def FileParseAtomData_def append_to_def buffer_of_def obind_def
      tag0_def trak0_def stco0_def data_names_def fread_def file0_def string_bytes_def
      allocate_def AtomBumpSize_chain set_size_def set_data_def set_children_def Let_def)


theorem size_accounting_witness:
  "BarFlyMp4TagOpen 40 [] ''x.m4a'' (Some file0) = Some (Some tag0, []) \<and>
   list_all size_ok (atoms tag0) \<and>
   chain_sizes [0, 0, 0, 0, 0, 0] (atoms tag0) = [64, 56, 48, 40, 32, 24] \<and>
   (\<exists>as'. AtomAppendData [] (atoms tag0) [0, 0, 0, 0, 0, 0] file0 80 [7, 7, 7, 7] =
        Returns (0, as', 80, []) \<and>
      list_all size_ok as' \<and>
      chain_sizes [0, 0, 0, 0, 0, 0] as' = [68, 60, 52, 44, 36, 28] \<and>
      map_option a_data (lookup_at [0, 0, 0, 0, 0, 0] as') =
        Some (Some [0, 0, 0, 0, 0, 0, 0, 2, 0, 0, 1, 244, 0, 0, 3, 132, 7, 7, 7, 7])) \<and>
   (\<exists>as'. AtomAddChild [] (atoms tag0) [0, 0] (Atom ''udta'' 8 [] None 0 (-1)) = (0, as', []) \<and>
      list_all size_ok as' \<and> chain_sizes [0, 0] as' = [72, 64] \<and>
      map_option (\<lambda>p. map a_name (a_children p)) (lookup_at [0, 0] as') = Some [''mdia'', ''udta''])"
proof -
  define as1 where "as1 =
       [Atom ''moov'' 68
          [Atom ''trak'' 60
             [Atom ''mdia'' 52
                [Atom ''minf'' 44
                   [Atom ''stbl'' 36
                      [Atom ''stco'' 28 []
                         (Some [0, 0, 0, 0, 0, 0, 0, 2, 0, 0, 1, 244, 0, 0, 3, 132, 7, 7, 7, 7])
                         20 56]
                      None 0 48]
                   None 0 40]
                None 0 32]
             None 0 24]
          None 0 16]"
  define as2 where "as2 = fst (snd (AtomAddChild [] (atoms tag0) [0, 0] (Atom ''udta'' 8 [] None 0 (-1))))"
  note t = size_accounting [where depth = 40 and m = "[]" and path = "''x.m4a''"
        and opened = "Some file0" and ?tag1.0 = tag0 and ?m1.0 = "[]" and as = "atoms tag0"
        and loc = "[0, 0, 0, 0, 0, 0]" and fl = file0 and pos = 80 and bytes = "[7, 7, 7, 7]"
        and st = 0 and as' = as1 and ?pos2.0 = 80 and ?m2.0 = "[]"
        and parent = "[0, 0]" and child = "Atom ''udta'' 8 [] None 0 (-1)"
        and p = "trak0 None" and ?as2.0 = as2 and ?m3.0 = "[]"]
  have ok0: "list_all size_ok (atoms tag0)"
    using t open0 by simp
  have cs0: "chain_sizes [0, 0, 0, 0, 0, 0] (atoms tag0) = [64, 56, 48, 40, 32, 24]"
    "chain_sizes [0, 0] (atoms tag0) = [64, 56]"
    by (simp_all add: tag0_def trak0_def stco0_def)
  have ap: "AtomAppendData [] (atoms tag0) [0, 0, 0, 0, 0, 0] file0 80 [7, 7, 7, 7] =
      Returns (0, as1, 80, [])"
    unfolding as1_def by (rule append0)
  have ap_ok: "list_all size_ok as1"
    using t ok0 ap by simp
  have "chain_sizes [0, 0, 0, 0, 0, 0] as1 =
      map (\<lambda>s. s + of_nat (length [7 :: byte, 7, 7, 7])) (chain_sizes [0, 0, 0, 0, 0, 0] (atoms tag0))"
    using t ap by blast
  then have ap_chain: "chain_sizes [0, 0, 0, 0, 0, 0] as1 = [68, 60, 52, 44, 36, 28]"
    unfolding cs0 by simp
  have ap_data: "map_option a_data (lookup_at [0, 0, 0, 0, 0, 0] as1) =
        Some (Some [0, 0, 0, 0, 0, 0, 0, 2, 0, 0, 1, 244, 0, 0, 3, 132, 7, 7, 7, 7])"
    by (simp add: as1_def)
  have lk: "lookup_at [0, 0] (atoms tag0) = Some (trak0 None)"
    by (simp add: tag0_def)
  have ac: "AtomAddChild [] (atoms tag0) [0, 0] (Atom ''udta'' 8 [] None 0 (-1)) = (0, as2, [])"
    by (simp add: as2_def AtomAddChild_def allocate_def)
  have c: "size_ok (Atom ''udta'' 8 [] None 0 (-1))"
    by simp
  have ac_ok: "list_all size_ok as2"
    using t ok0 c lk by (simp add: as2_def)
  have ex: "\<exists>p'. lookup_at [0, 0] as2 = Some p' \<and>
      a_children p' = a_children (trak0 None) @ [Atom ''udta'' 8 [] None 0 (-1)] \<and>
      chain_sizes [0, 0] as2 =
        map (\<lambda>s. s + a_size (Atom ''udta'' 8 [] None 0 (-1))) (chain_sizes [0, 0] (atoms tag0))"
    using t lk ac by blast
  then have "chain_sizes [0, 0] as2 =
        map (\<lambda>s. s + a_size (Atom ''udta'' 8 [] None 0 (-1))) (chain_sizes [0, 0] (atoms tag0))"
    by blast
  then have ac_chain: "chain_sizes [0, 0] as2 = [72, 64]"
    unfolding cs0 by simp
  obtain p' where "lookup_at [0, 0] as2 = Some p'"
    "a_children p' = a_children (trak0 None) @ [Atom ''udta'' 8 [] None 0 (-1)]"
    using ex by blast
  then have ac_names: "map_option (\<lambda>p. map a_name (a_children p)) (lookup_at [0, 0] as2) =
      Some [''mdia'', ''udta'']"
    by (simp add: trak0_def)
  have A: "\<exists>as'. AtomAppendData [] (atoms tag0) [0, 0, 0, 0, 0, 0] file0 80 [7, 7, 7, 7] =
        Returns (0, as', 80, []) \<and>
      list_all size_ok as' \<and>
      chain_sizes [0, 0, 0, 0, 0, 0] as' = [68, 60, 52, 44, 36, 28] \<and>
      map_option a_data (lookup_at [0, 0, 0, 0, 0, 0] as') =
        Some (Some [0, 0, 0, 0, 0, 0, 0, 2, 0, 0, 1, 244, 0, 0, 3, 132, 7, 7, 7, 7])"
    by (rule exI [of _ as1], intro conjI) (rule ap ap_ok ap_chain ap_data)+
  have B: "\<exists>as'. AtomAddChild [] (atoms tag0) [0, 0] (Atom ''udta'' 8 [] None 0 (-1)) = (0, as', []) \<and>
      list_all size_ok as' \<and> chain_sizes [0, 0] as' = [72, 64] \<and>
      map_option (\<lambda>p. map a_name (a_children p)) (lookup_at [0, 0] as') = Some [''mdia'', ''udta'']"
    by (rule exI [of _ as2], intro conjI) (rule ac ac_ok ac_chain ac_names)+
  show ?thesis
    by (intro conjI) (rule open0 ok0 cs0(1) A B)+
qed


section \<open>Adding metadata\<close>





lemma TagFindAtom_pos [simp]: "TagFindAtom (tag\<lparr>mp4_pos := pos\<rparr>) path = TagFindAtom tag path"
  by (simp add: TagFindAtom_def)





















end
